theory Spec2Isabelle
  imports Complex_Main "HOL-Library.Char_ord" "HOL-Library.List_Lexorder" "HOL-Library.Multiset"
begin

section \<open>Data model\<close>

text \<open>
  The two tables of \<^verbatim>\<open>generate_data.py\<close>, as \<^verbatim>\<open>load_data\<close> reads them: one record per
  row, one field per column. Cells are ASCII strings; a missing cell, which the reader of
  the files turns into a not-a-number value instead of a string, is not modelled. The
  publication column \<^verbatim>\<open>keywords\<close> is the field \<open>pub_keywords\<close>, as \<open>keywords\<close> is
  reserved in theory text.
\<close>

record researcher =
  researcher_id :: string
  name :: string
  department :: string
  email :: string
  research_interests :: string

record publication =
  publication_id :: string
  title :: string
  abstract :: string
  authors :: string
  year :: int
  pub_keywords :: string

text \<open>The exceptions that the recommender can raise, as values.\<close>

datatype error =
    ValueError string
  | TypeError
  | IndexError
  | KeyError string
  | ReError string

text \<open>
  The object \<^verbatim>\<open>ResearchCollaborationRecommender\<close> once \<^verbatim>\<open>load_data\<close> has run. The two
  matrices are \<open>None\<close> until their build step has run, as in \<^verbatim>\<open>__init__\<close>. The co-authorship
  matrix holds counts (floats that are only ever incremented by one from zero), the TF-IDF
  matrix holds one row per researcher. Floating-point numbers are modelled as exact reals.
\<close>

record recommender =
  researchers :: "researcher list"
  publications :: "publication list"
  coauthor_matrix :: "nat list list option"
  tfidf_matrix :: "real list list option"
  researcher_ids :: "string \<rightharpoonup> nat"

section \<open>Strings\<close>

text \<open>\<^verbatim>\<open>str.split(',')\<close>: the pieces between the separators; an empty string gives one empty piece.\<close>

fun split_on :: "char \<Rightarrow> string \<Rightarrow> string list" where
  "split_on sep [] = [[]]"
| "split_on sep (c # cs) =
     (if c = sep then [] # split_on sep cs
      else (case split_on sep cs of
              [] \<Rightarrow> [[c]]
            | w # ws \<Rightarrow> (c # w) # ws))"

text \<open>\<^verbatim>\<open>str.strip()\<close>: whitespace is dropped at both ends (the ASCII whitespace of \<^verbatim>\<open>str.isspace\<close>).\<close>

definition is_space :: "char \<Rightarrow> bool" where
  "is_space c = (let n = (of_char c :: nat) in (9 \<le> n \<and> n \<le> 13) \<or> (28 \<le> n \<and> n \<le> 32))"

definition strip :: "string \<Rightarrow> string" where
  "strip s = rev (dropWhile is_space (rev (dropWhile is_space s)))"

text \<open>\<^verbatim>\<open>sep.join(xs)\<close>.\<close>

fun join :: "string \<Rightarrow> string list \<Rightarrow> string" where
  "join sep [] = []"
| "join sep [x] = x"
| "join sep (x # y # ys) = x @ sep @ join sep (y # ys)"

text \<open>Whether the pattern occurs in the text, character by character.\<close>

fun is_prefix :: "string \<Rightarrow> string \<Rightarrow> bool" where
  "is_prefix [] s = True"
| "is_prefix (p # ps) [] = False"
| "is_prefix (p # ps) (c # cs) = (p = c \<and> is_prefix ps cs)"

fun has_substring :: "string \<Rightarrow> string \<Rightarrow> bool" where
  "has_substring [] pat = (pat = [])"
| "has_substring (c # cs) pat = (is_prefix pat (c # cs) \<or> has_substring cs pat)"

text \<open>
  \<^verbatim>\<open>Series.str.contains(pat)\<close> takes the pattern as a regular expression: it compiles the
  pattern, which raises \<^verbatim>\<open>re.error\<close> when the pattern is not a regular expression, also on
  a column without rows, and then searches it in every cell. A pattern without any of the
  special characters \<^verbatim>\<open>. ^ $ * + ? { } [ ] \ | ( )\<close> matches itself, character by character.
  What the regular-expression library does with the other patterns is a parameter of the
  model.
\<close>

type_synonym regex_engine = "string \<Rightarrow> error + (string \<Rightarrow> bool)"

definition regex_special :: "char \<Rightarrow> bool" where
  "regex_special c = (c \<in> set [CHR ''.'', CHR ''^'', CHR ''$'', CHR ''*'', CHR ''+'', CHR ''?'',
                                  CHR ''{'', CHR ''}'', CHR ''['', CHR '']'', CHR 0x5C, CHR ''|'',
                                  CHR ''('', CHR '')''])"

definition literal_pattern :: "string \<Rightarrow> bool" where
  "literal_pattern pat = list_all (\<lambda>c. \<not> regex_special c) pat"

definition str_contains :: "regex_engine \<Rightarrow> string \<Rightarrow> error + (string \<Rightarrow> bool)" where
  "str_contains re_compile pat =
     (if literal_pattern pat then Inr (\<lambda>cell. has_substring cell pat) else re_compile pat)"

section \<open>Loading\<close>

text \<open>
  \<^verbatim>\<open>{name: idx for idx, name in enumerate(self.researchers['name'])}\<close>: the names are
  entered in row order, so that a later row with the same name replaces the earlier one.
\<close>

definition make_researcher_ids :: "string list \<Rightarrow> (string \<rightharpoonup> nat)" where
  "make_researcher_ids names =
     fold (\<lambda>(idx, nm) m. m(nm \<mapsto> idx)) (zip [0..<length names] names) Map.empty"

text \<open>
  \<^verbatim>\<open>load_data\<close>, from the two tables already read (the existence checks on the two paths and
  the parsing of the files happen before and are not part of the model).
\<close>

definition load_data :: "researcher list \<Rightarrow> publication list \<Rightarrow> recommender" where
  "load_data rs ps =
     \<lparr> researchers = rs, publications = ps, coauthor_matrix = None, tfidf_matrix = None,
       researcher_ids = make_researcher_ids (map name rs) \<rparr>"

section \<open>Co-authorship matrix\<close>

text \<open>A loop whose body may raise: the first error ends it.\<close>

fun for_each :: "('a \<Rightarrow> 's \<Rightarrow> error + 's) \<Rightarrow> 'a list \<Rightarrow> 's \<Rightarrow> error + 's" where
  "for_each body [] s = Inr s"
| "for_each body (x # xs) s =
     (case body x s of Inl e \<Rightarrow> Inl e | Inr s' \<Rightarrow> for_each body xs s')"

text \<open>\<^verbatim>\<open>M[i, j] += 1\<close> on a dense matrix; an index outside the matrix raises.\<close>

definition incr :: "nat \<Rightarrow> nat \<Rightarrow> nat list list \<Rightarrow> error + nat list list" where
  "incr i j M =
     (if i < length M \<and> j < length (M ! i)
      then Inr (M[i := (M ! i)[j := M ! i ! j + 1]])
      else Inl IndexError)"

text \<open>\<^verbatim>\<open>self.researcher_ids[a]\<close>: a missing key raises.\<close>

definition lookup_id :: "(string \<rightharpoonup> nat) \<Rightarrow> string \<Rightarrow> error + nat" where
  "lookup_id ids a = (case ids a of None \<Rightarrow> Inl (KeyError a) | Some i \<Rightarrow> Inr i)"

text \<open>The body of the inner loop (lines 38 to 41), for the two author names at \<open>i\<close> and \<open>j\<close>.\<close>

definition count_pair :: "(string \<rightharpoonup> nat) \<Rightarrow> string \<Rightarrow> string \<Rightarrow> nat list list \<Rightarrow> error + nat list list" where
  "count_pair ids a b M =
     (case lookup_id ids a of Inl e \<Rightarrow> Inl e | Inr idx1 \<Rightarrow>
       (case lookup_id ids b of Inl e \<Rightarrow> Inl e | Inr idx2 \<Rightarrow>
         (case incr idx1 idx2 M of Inl e \<Rightarrow> Inl e | Inr M' \<Rightarrow>
            incr idx2 idx1 M')))"

text \<open>
  Line 35: the author cell is split at the commas, every piece is stripped, and the pieces
  that are keys of \<open>researcher_ids\<close> are kept, in order and with their repetitions.
\<close>

definition resolved_authors :: "(string \<rightharpoonup> nat) \<Rightarrow> publication \<Rightarrow> string list" where
  "resolved_authors ids pub =
     filter (\<lambda>a. ids a \<noteq> None) (map strip (split_on (CHR '','') (authors pub)))"

text \<open>Lines 36 to 41: every pair of positions \<open>i < j\<close> of the resolved author list.\<close>

definition count_publication :: "(string \<rightharpoonup> nat) \<Rightarrow> publication \<Rightarrow> nat list list \<Rightarrow> error + nat list list" where
  "count_publication ids pub M =
     (let auths = resolved_authors ids pub in
      for_each (\<lambda>i. for_each (\<lambda>j. count_pair ids (auths ! i) (auths ! j))
                         [i + 1 ..< length auths])
               [0 ..< length auths] M)"

definition build_coauthor_matrix :: "recommender \<Rightarrow> error + recommender" where
  "build_coauthor_matrix s =
     (let num_researchers = length (researchers s);
          zeros = replicate num_researchers (replicate num_researchers 0)
      in case for_each (count_publication (researcher_ids s)) (publications s) zeros of
           Inl e \<Rightarrow> Inl e
         | Inr M \<Rightarrow> Inr (s\<lparr>coauthor_matrix := Some M\<rparr>))"

text \<open>\<open>weight s a b\<close> reads the built matrix at the rows of the two names.\<close>

definition weight :: "recommender \<Rightarrow> string \<Rightarrow> string \<Rightarrow> nat option" where
  "weight s a b =
     (case (coauthor_matrix s, researcher_ids s a, researcher_ids s b) of
        (Some M, Some i, Some j) \<Rightarrow> if i < length M \<and> j < length (M ! i) then Some (M ! i ! j) else None
      | _ \<Rightarrow> None)"

section \<open>Content profiles\<close>

text \<open>
  Lines 51 and 52: the publications in whose author cell the researcher's name, taken as a
  regular expression, is found, and the profile text made of the interests, a space, and
  their keyword cells joined by spaces.
\<close>

definition researcher_pubs :: "regex_engine \<Rightarrow> publication list \<Rightarrow> researcher \<Rightarrow> error + publication list" where
  "researcher_pubs re_compile pubs r =
     (case str_contains re_compile (name r) of
        Inl e \<Rightarrow> Inl e
      | Inr found \<Rightarrow> Inr (filter (\<lambda>p. found (authors p)) pubs))"

definition combined_text :: "regex_engine \<Rightarrow> publication list \<Rightarrow> researcher \<Rightarrow> error + string" where
  "combined_text re_compile pubs r =
     (case researcher_pubs re_compile pubs r of
        Inl e \<Rightarrow> Inl e
      | Inr own \<Rightarrow> Inr (research_interests r @ '' '' @ join '' '' (map pub_keywords own)))"

text \<open>Lines 48 to 53: one profile text is appended per researcher; the first error ends the loop.\<close>

fun append_each :: "('a \<Rightarrow> error + 'b) \<Rightarrow> 'a list \<Rightarrow> error + 'b list" where
  "append_each f [] = Inr []"
| "append_each f (x # xs) =
     (case f x of
        Inl e \<Rightarrow> Inl e
      | Inr y \<Rightarrow> (case append_each f xs of Inl e \<Rightarrow> Inl e | Inr ys \<Rightarrow> Inr (y # ys)))"

definition text_data :: "regex_engine \<Rightarrow> recommender \<Rightarrow> error + string list" where
  "text_data re_compile s = append_each (combined_text re_compile (publications s)) (researchers s)"

subsection \<open>The vectorizer\<close>

text \<open>
  \<^verbatim>\<open>TfidfVectorizer()\<close> of scikit-learn with its default parameters, as documented: the text
  is lowercased, the tokens are the maximal runs of two or more word characters (the
  pattern \<^verbatim>\<open>\b\w\w+\b\<close>), the vocabulary is the sorted set of the tokens of all documents,
  and \<^verbatim>\<open>fit_transform\<close> raises \<^verbatim>\<open>ValueError\<close> when the vocabulary is empty. The weight of a
  term in a document is its count times \<open>ln ((1 + n) / (1 + df)) + 1\<close>, and every row is
  divided by its Euclidean norm (a row of norm zero is left as it is).
\<close>

definition is_word_char :: "char \<Rightarrow> bool" where
  "is_word_char c =
     (let n = (of_char c :: nat)
      in (48 \<le> n \<and> n \<le> 57) \<or> (65 \<le> n \<and> n \<le> 90) \<or> n = 95 \<or> (97 \<le> n \<and> n \<le> 122))"

definition lower_char :: "char \<Rightarrow> char" where
  "lower_char c =
     (case map_of (zip ''ABCDEFGHIJKLMNOPQRSTUVWXYZ'' ''abcdefghijklmnopqrstuvwxyz'') c of
        None \<Rightarrow> c
      | Some l \<Rightarrow> l)"

fun word_runs :: "string \<Rightarrow> string \<Rightarrow> string list" where
  "word_runs cur [] = (if cur = [] then [] else [cur])"
| "word_runs cur (c # cs) =
     (if is_word_char c then word_runs (cur @ [c]) cs
      else (if cur = [] then [] else [cur]) @ word_runs [] cs)"

definition tokenize :: "string \<Rightarrow> string list" where
  "tokenize doc = filter (\<lambda>w. 2 \<le> length w) (word_runs [] (map lower_char doc))"

definition vocabulary :: "string list list \<Rightarrow> string list" where
  "vocabulary toks = sort (remdups (concat toks))"

definition idf :: "string list list \<Rightarrow> string \<Rightarrow> real" where
  "idf toks t =
     ln ((1 + real (length toks)) / (1 + real (length (filter (\<lambda>d. t \<in> set d) toks)))) + 1"

definition l2_normalize :: "real list \<Rightarrow> real list" where
  "l2_normalize v =
     (let norm = sqrt (sum_list (map (\<lambda>x. x * x) v));
          norm' = (if norm = 0 then 1 else norm)
      in map (\<lambda>x. x / norm') v)"

definition tfidf_row :: "string list list \<Rightarrow> string list \<Rightarrow> string list \<Rightarrow> real list" where
  "tfidf_row toks vocab d = l2_normalize (map (\<lambda>t. real (count_list d t) * idf toks t) vocab)"

definition fit_transform :: "string list \<Rightarrow> error + real list list" where
  "fit_transform docs =
     (let toks = map tokenize docs; vocab = vocabulary toks
      in if vocab = []
         then Inl (ValueError ''empty vocabulary; perhaps the documents only contain stop words'')
         else Inr (map (tfidf_row toks vocab) toks))"

definition build_content_profiles :: "regex_engine \<Rightarrow> recommender \<Rightarrow> error + recommender" where
  "build_content_profiles re_compile s =
     (case text_data re_compile s of
        Inl e \<Rightarrow> Inl e
      | Inr docs \<Rightarrow>
          (case fit_transform docs of
             Inl e \<Rightarrow> Inl e
           | Inr T \<Rightarrow> Inr (s\<lparr>tfidf_matrix := Some T\<rparr>)))"

section \<open>Recommendation\<close>

text \<open>
  \<^verbatim>\<open>cosine_similarity(x, Y)\<close> of scikit-learn: both arguments are normalised row by row
  (rows of norm zero are left as they are) and the result holds the dot product of \<open>x\<close>
  with every row of \<open>Y\<close>. The rows of a matrix all have the same length.
\<close>

definition dot :: "real list \<Rightarrow> real list \<Rightarrow> real" where
  "dot u v = sum_list (map2 (*) u v)"

definition cosine_similarity :: "real list \<Rightarrow> real list list \<Rightarrow> real list" where
  "cosine_similarity x Y = map (\<lambda>y. dot (l2_normalize x) (l2_normalize y)) Y"

text \<open>
  Lines 75 and 76: \<^verbatim>\<open>(v - v.min()) / (v.max() - v.min() + 1e-6)\<close>. The reductions raise on an
  empty array.
\<close>

definition minmax_normalize :: "real list \<Rightarrow> error + real list" where
  "minmax_normalize v =
     (if v = [] then Inl (ValueError ''zero-size array to reduction operation minimum which has no identity'')
      else Inr (map (\<lambda>x. (x - Min (set v)) / (Max (set v) - Min (set v) + 1 / 1000000)) v))"

text \<open>
  Line 78: \<^verbatim>\<open>0.6 * content_sim + 0.4 * collab_sim\<close>, elementwise; an array of length one is
  broadcast, other unequal lengths raise.
\<close>

definition combine :: "real list \<Rightarrow> real list \<Rightarrow> error + real list" where
  "combine content collab =
     (if length content = length collab
        then Inr (map2 (\<lambda>x y. 6 / 10 * x + 4 / 10 * y) content collab)
      else if length content = 1
        then Inr (map (\<lambda>y. 6 / 10 * hd content + 4 / 10 * y) collab)
      else if length collab = 1
        then Inr (map (\<lambda>x. 6 / 10 * x + 4 / 10 * hd collab) content)
      else Inl (ValueError ''operands could not be broadcast together''))"

text \<open>Lines 65 to 78: the combined scores of all researchers for the query row.\<close>

definition combined_scores :: "recommender \<Rightarrow> nat \<Rightarrow> error + real list" where
  "combined_scores s researcher_idx =
     (case tfidf_matrix s of None \<Rightarrow> Inl TypeError | Some T \<Rightarrow>
        if \<not> researcher_idx < length T then Inl IndexError
        else (case coauthor_matrix s of None \<Rightarrow> Inl TypeError | Some C \<Rightarrow>
          if \<not> researcher_idx < length C then Inl IndexError
          else (case minmax_normalize (cosine_similarity (T ! researcher_idx) T) of
                  Inl e \<Rightarrow> Inl e
                | Inr content_sim \<Rightarrow>
                    (case minmax_normalize (map real (C ! researcher_idx)) of
                       Inl e \<Rightarrow> Inl e
                     | Inr collab_sim \<Rightarrow> combine content_sim collab_sim))))"

text \<open>
  \<^verbatim>\<open>np.argsort\<close>: the indices in ascending order of their values. The library's default
  sort leaves the order of equal values open and compares floating-point numbers; here
  equal values are kept in index order and the values are exact. The lemmas on the
  exclusion and on the number of entries use only that the result is a permutation of
  the indices, and the evaluated data set has no two equal scores.
\<close>

definition argsort :: "real list \<Rightarrow> nat list" where
  "argsort v = sort_key (\<lambda>i. v ! i) [0 ..< length v]"

text \<open>\<^verbatim>\<open>xs[start:stop]\<close>: a negative bound counts from the end, and both are clipped.\<close>

definition clip_index :: "nat \<Rightarrow> int \<Rightarrow> nat" where
  "clip_index n i = (if i < 0 then nat (int n + i) else min n (nat i))"

definition py_slice :: "'a list \<Rightarrow> int \<Rightarrow> int \<Rightarrow> 'a list" where
  "py_slice xs start stop =
     (let a = clip_index (length xs) start; b = clip_index (length xs) stop
      in take (b - a) (drop a xs))"

text \<open>Line 81.\<close>

definition top_indices :: "real list \<Rightarrow> int \<Rightarrow> nat list" where
  "top_indices scores top_n = rev (py_slice (argsort scores) (- top_n - 1) (- 1))"

text \<open>
  Lines 83 to 88: a recommendation is the researcher's row with its score;
  \<^verbatim>\<open>iloc\<close> raises outside the table.
\<close>

fun recommendations :: "researcher list \<Rightarrow> real list \<Rightarrow> nat \<Rightarrow> nat list \<Rightarrow> error + (researcher \<times> real) list" where
  "recommendations rs scores researcher_idx [] = Inr []"
| "recommendations rs scores researcher_idx (idx # idxs) =
     (if idx \<noteq> researcher_idx
      then (if idx < length rs
            then (case recommendations rs scores researcher_idx idxs of
                    Inl e \<Rightarrow> Inl e
                  | Inr recs \<Rightarrow> Inr ((rs ! idx, scores ! idx) # recs))
            else Inl IndexError)
      else recommendations rs scores researcher_idx idxs)"

definition recommend_collaborators :: "recommender \<Rightarrow> string \<Rightarrow> int \<Rightarrow> error + (researcher \<times> real) list" where
  "recommend_collaborators s researcher_name top_n =
     (case researcher_ids s researcher_name of
        None \<Rightarrow> Inl (ValueError (''Researcher '' @ researcher_name @ '' not found in database''))
      | Some researcher_idx \<Rightarrow>
          (case combined_scores s researcher_idx of
             Inl e \<Rightarrow> Inl e
           | Inr scores \<Rightarrow>
               recommendations (researchers s) scores researcher_idx (top_indices scores top_n)))"

section \<open>Properties of matrices and of models\<close>

text \<open>A matrix of \<open>n\<close> rows of \<open>n\<close> entries, and its symmetry.\<close>

definition square :: "nat \<Rightarrow> nat list list \<Rightarrow> bool" where
  "square n M = (length M = n \<and> (\<forall>r \<in> set M. length r = n))"

definition symmetric :: "nat \<Rightarrow> nat list list \<Rightarrow> bool" where
  "symmetric n M = (\<forall>i < n. \<forall>j < n. M ! i ! j = M ! j ! i)"

text \<open>
  Counting pairs of positions. \<open>pair_sum A a b\<close> is the number of pairs of positions
  \<open>i < j\<close> of the list \<open>A\<close> that hold \<open>a\<close> and \<open>b\<close>, counted once for each of the two
  increments of lines 40 and 41 that lands on the entry \<open>(a, b)\<close>. \<open>position_pairs\<close> is the
  same count for the indices that the names of \<open>A\<close> resolve to.
\<close>

definition pair_sum :: "'a list \<Rightarrow> 'a \<Rightarrow> 'a \<Rightarrow> nat" where
  "pair_sum A a b =
     sum_list (map (\<lambda>i. sum_list (map (\<lambda>j. (if a = A ! i \<and> b = A ! j then 1 else 0)
                                            + (if a = A ! j \<and> b = A ! i then 1 else 0))
                                   [i + 1 ..< length A]))
                   [0 ..< length A])"

definition position_pairs :: "(string \<rightharpoonup> nat) \<Rightarrow> string list \<Rightarrow> nat \<Rightarrow> nat \<Rightarrow> nat" where
  "position_pairs ids A x y =
     sum_list (map (\<lambda>i. sum_list (map (\<lambda>j. (if ids (A ! i) = Some x \<and> ids (A ! j) = Some y then 1 else 0)
                                            + (if ids (A ! j) = Some x \<and> ids (A ! i) = Some y then 1 else 0))
                                   [i + 1 ..< length A]))
                   [0 ..< length A])"

text \<open>
  \<open>loaded\<close>: the name index is the one \<^verbatim>\<open>load_data\<close> makes from the researcher table.
  \<open>built\<close>: moreover both build steps have run on that table, so the co-authorship matrix
  has one row and one column per researcher and the TF-IDF matrix one row per researcher.
\<close>

definition loaded :: "recommender \<Rightarrow> bool" where
  "loaded s = (researcher_ids s = make_researcher_ids (map name (researchers s)))"

definition built :: "recommender \<Rightarrow> bool" where
  "built s =
     (loaded s \<and>
      (case coauthor_matrix s of
         None \<Rightarrow> False
       | Some C \<Rightarrow> square (length (researchers s)) C) \<and>
      (case tfidf_matrix s of
         None \<Rightarrow> False
       | Some T \<Rightarrow> length T = length (researchers s) \<and> list_all (\<lambda>r. length r = length (hd T)) T))"

section \<open>A small data set\<close>

text \<open>
  Three researchers and one publication by the first two. \<open>example_model\<close> is the model
  that the two build steps make of them.
\<close>

definition alice :: researcher where
  "alice = \<lparr> researcher_id = ''R000'', name = ''Alice'', department = ''Computer Science'',
             email = ''alice@example.org'', research_interests = ''AI'' \<rparr>"

definition bob :: researcher where
  "bob = \<lparr> researcher_id = ''R001'', name = ''Bob'', department = ''Computer Science'',
           email = ''bob@example.org'', research_interests = ''AI'' \<rparr>"

definition carol :: researcher where
  "carol = \<lparr> researcher_id = ''R002'', name = ''Carol'', department = ''Biology'',
             email = ''carol@example.org'', research_interests = ''Genetics'' \<rparr>"

definition joint_paper :: publication where
  "joint_paper = \<lparr> publication_id = ''P0000'', title = ''Joint work'', abstract = ''Text'',
                   authors = ''Alice, Bob'', year = 2020, pub_keywords = ''AI'' \<rparr>"

definition example_model :: recommender where
  "example_model =
     \<lparr> researchers = [alice, bob, carol], publications = [joint_paper],
       coauthor_matrix = Some [[0, 1, 0], [1, 0, 0], [0, 0, 0]],
       tfidf_matrix = Some [[1, 0], [1, 0], [0, 1]],
       researcher_ids = make_researcher_ids [''Alice'', ''Bob'', ''Carol''] \<rparr>"

text \<open>A publication whose author cell repeats a name.\<close>

definition duplicate_paper :: publication where
  "duplicate_paper = \<lparr> publication_id = ''P0001'', title = ''Repeated name'', abstract = ''Text'',
                       authors = ''Alice, Alice, Bob'', year = 2021, pub_keywords = ''AI'' \<rparr>"

text \<open>
  Two researchers, the name of the first a prefix of the name of the second, and a
  publication of the second alone.
\<close>

definition ann_lee :: researcher where
  "ann_lee = \<lparr> researcher_id = ''R000'', name = ''Ann Lee'', department = ''Computer Science'',
               email = ''lee@example.org'', research_interests = ''AI'' \<rparr>"

definition ann_leeson :: researcher where
  "ann_leeson = \<lparr> researcher_id = ''R001'', name = ''Ann Leeson'', department = ''Biology'',
                  email = ''leeson@example.org'', research_interests = ''Ecology'' \<rparr>"

definition leeson_paper :: publication where
  "leeson_paper = \<lparr> publication_id = ''P0000'', title = ''Field study'', abstract = ''Text'',
                    authors = ''Ann Leeson'', year = 2022, pub_keywords = ''Genetics'' \<rparr>"




section \<open>The ranking as the specification words it\<close>

text \<open>
  Step 5 of the specification: the candidates are all researchers other than the query
  researcher, sorted by combined score in descending order, and the first \<open>top_n\<close> of them
  are returned. Used only to compare \<open>top_indices\<close> with it.
\<close>

definition spec_top_candidates :: "real list \<Rightarrow> nat \<Rightarrow> nat \<Rightarrow> nat list" where
  "spec_top_candidates scores researcher_idx top_n =
     take top_n (rev (sort_key (\<lambda>i. scores ! i)
                        (filter (\<lambda>i. i \<noteq> researcher_idx) [0 ..< length scores])))"


section \<open>The name index\<close>

lemma make_researcher_ids_snoc:
  "make_researcher_ids (names @ [x]) a =
     (if a = x then Some (length names) else make_researcher_ids names a)"
  by (simp add: make_researcher_ids_def)

lemma make_researcher_ids_Nil: "make_researcher_ids [] a = None"
  by (simp add: make_researcher_ids_def)

lemma make_researcher_ids_Some:
  "make_researcher_ids names a = Some i \<Longrightarrow> i < length names \<and> names ! i = a"
proof (induction names arbitrary: i rule: rev_induct)
  case Nil
  then show ?case by (simp add: make_researcher_ids_Nil)
next
  case (snoc x xs)
  then show ?case
    by (auto simp: make_researcher_ids_snoc nth_append split: if_splits)
qed

lemma dom_make_researcher_ids: "(make_researcher_ids names a \<noteq> None) = (a \<in> set names)"
  by (induction names rule: rev_induct) (simp_all add: make_researcher_ids_Nil make_researcher_ids_snoc)

lemma load_data_ids_bounded:
  "researcher_ids (load_data rs ps) a = Some k \<Longrightarrow> k < length rs"
  using make_researcher_ids_Some [of "map name rs" a k] by (simp add: load_data_def)

lemma load_data_ids_inj:
  "researcher_ids (load_data rs ps) u = Some k \<Longrightarrow> researcher_ids (load_data rs ps) v = Some k \<Longrightarrow> u = v"
  using make_researcher_ids_Some [of "map name rs" u k] make_researcher_ids_Some [of "map name rs" v k]
  by (simp add: load_data_def)

lemma load_data_known:
  "a \<in> set (map name rs) \<Longrightarrow> \<exists>x. researcher_ids (load_data rs ps) a = Some x"
  using dom_make_researcher_ids [of "map name rs" a] by (simp add: load_data_def)

lemma loaded_lookup:
  assumes "loaded s" "researcher_ids s nm = Some ridx"
  shows "ridx < length (researchers s) \<and> name (researchers s ! ridx) = nm"
proof -
  from assms have "ridx < length (map name (researchers s)) \<and> map name (researchers s) ! ridx = nm"
    using make_researcher_ids_Some [of "map name (researchers s)" nm ridx]
    by (simp add: loaded_def)
  then show ?thesis by auto
qed

lemma loaded_present:
  assumes "loaded s"
  shows "(researcher_ids s nm \<noteq> None) = (nm \<in> set (map name (researchers s)))"
  using assms dom_make_researcher_ids [of "map name (researchers s)" nm]
  by (simp add: loaded_def)

section \<open>The co-authorship matrix\<close>

subsection \<open>The build returns a square, symmetric matrix\<close>

lemma two_increments:
  fixes a :: nat
  shows "(if x = j \<and> y = i then (if x = i \<and> y = j then a + 1 else a) + 1
          else (if x = i \<and> y = j then a + 1 else a)) =
         a + (if x = i \<and> y = j then 1 else 0) + (if x = j \<and> y = i then 1 else 0)"
  by (cases "x = i"; cases "y = j"; cases "x = j"; cases "y = i"; simp)

lemma for_each_invariant:
  assumes "P s"
    and "\<And>x t. x \<in> set xs \<Longrightarrow> P t \<Longrightarrow> \<exists>t'. body x t = Inr t' \<and> P t'"
  shows "\<exists>s'. for_each body xs s = Inr s' \<and> P s'"
  using assms
proof (induction xs arbitrary: s)
  case Nil
  then show ?case by simp
next
  case (Cons x xs)
  from Cons.prems obtain t where t: "body x s = Inr t" "P t" by (meson list.set_intros(1))
  have "\<exists>s'. for_each body xs t = Inr s' \<and> P s'"
    by (rule Cons.IH [OF t(2)]) (simp add: Cons.prems(2))
  with t show ?case by simp
qed

lemma incr_square:
  assumes "square n M" "i < n" "j < n"
  shows "\<exists>M'. incr i j M = Inr M' \<and> square n M' \<and>
     (\<forall>a < n. \<forall>b < n. M' ! a ! b = (if a = i \<and> b = j then M ! a ! b + 1 else M ! a ! b))"
proof -
  from assms have len: "length M = n" "length (M ! i) = n"
    by (auto simp: square_def)
  let ?M' = "M[i := (M ! i)[j := M ! i ! j + 1]]"
  have "incr i j M = Inr ?M'" using len assms by (simp add: incr_def)
  moreover have "square n ?M'"
    using assms len by (auto simp: square_def dest!: set_update_subset_insert [THEN subsetD])
  moreover have "\<forall>a < n. \<forall>b < n. ?M' ! a ! b = (if a = i \<and> b = j then M ! a ! b + 1 else M ! a ! b)"
    using len assms by (auto simp: nth_list_update)
  ultimately show ?thesis by blast
qed

lemma count_pair_square:
  assumes "square n M" "ids a = Some i" "ids b = Some j" "i < n" "j < n"
  shows "\<exists>M'. count_pair ids a b M = Inr M' \<and> square n M' \<and>
     (\<forall>x < n. \<forall>y < n. M' ! x ! y =
        M ! x ! y + (if x = i \<and> y = j then 1 else 0) + (if x = j \<and> y = i then 1 else 0))"
proof -
  from incr_square [OF assms(1,4,5)] obtain M1 where
    M1: "incr i j M = Inr M1" "square n M1"
        "\<forall>a < n. \<forall>b < n. M1 ! a ! b = (if a = i \<and> b = j then M ! a ! b + 1 else M ! a ! b)"
    by blast
  from incr_square [OF M1(2) assms(5,4)] obtain M2 where
    M2: "incr j i M1 = Inr M2" "square n M2"
        "\<forall>a < n. \<forall>b < n. M2 ! a ! b = (if a = j \<and> b = i then M1 ! a ! b + 1 else M1 ! a ! b)"
    by blast
  have "count_pair ids a b M = Inr M2"
    using assms M1(1) M2(1) by (simp add: count_pair_def lookup_id_def)
  moreover have "\<forall>x < n. \<forall>y < n. M2 ! x ! y =
        M ! x ! y + (if x = i \<and> y = j then 1 else 0) + (if x = j \<and> y = i then 1 else 0)"
  proof (intro allI impI)
    fix x y assume xy: "x < n" "y < n"
    from M1(3) xy have 1: "M1 ! x ! y = (if x = i \<and> y = j then M ! x ! y + 1 else M ! x ! y)"
      by blast
    from M2(3) xy have 2: "M2 ! x ! y = (if x = j \<and> y = i then M1 ! x ! y + 1 else M1 ! x ! y)"
      by blast
    show "M2 ! x ! y =
        M ! x ! y + (if x = i \<and> y = j then 1 else 0) + (if x = j \<and> y = i then 1 else 0)"
      unfolding 2 1 by (rule two_increments)
  qed
  ultimately show ?thesis using M2(2) by blast
qed

lemma count_pair_symmetric:
  assumes "square n M" "symmetric n M" "ids a = Some i" "ids b = Some j" "i < n" "j < n"
  shows "\<exists>M'. count_pair ids a b M = Inr M' \<and> square n M' \<and> symmetric n M'"
proof -
  from count_pair_square [OF assms(1,3,4,5,6)] obtain M' where
    M': "count_pair ids a b M = Inr M'" "square n M'"
        "\<forall>x < n. \<forall>y < n. M' ! x ! y =
           M ! x ! y + (if x = i \<and> y = j then 1 else 0) + (if x = j \<and> y = i then 1 else 0)"
    by blast
  have "symmetric n M'"
    unfolding symmetric_def
  proof (intro allI impI)
    fix x y assume xy: "x < n" "y < n"
    from assms(2) xy have c: "M ! x ! y = M ! y ! x" by (simp add: symmetric_def)
    from M'(3) xy have a: "M' ! x ! y =
        M ! x ! y + (if x = i \<and> y = j then 1 else 0) + (if x = j \<and> y = i then 1 else 0)"
      by blast
    from M'(3) xy have b: "M' ! y ! x =
        M ! y ! x + (if y = i \<and> x = j then 1 else 0) + (if y = j \<and> x = i then 1 else 0)"
      by blast
    show "M' ! x ! y = M' ! y ! x"
      unfolding a b c by (cases "x = i"; cases "y = j"; cases "x = j"; cases "y = i"; simp)
  qed
  with M' show ?thesis by blast
qed

lemma resolved_authors_known:
  "i < length (resolved_authors ids pub) \<Longrightarrow> \<exists>k. ids (resolved_authors ids pub ! i) = Some k"
proof -
  assume "i < length (resolved_authors ids pub)"
  then have "resolved_authors ids pub ! i \<in> set (resolved_authors ids pub)" by simp
  then show ?thesis by (auto simp: resolved_authors_def)
qed

lemma count_publication_symmetric:
  assumes bounded: "\<And>a k. ids a = Some k \<Longrightarrow> k < n"
    and inv: "square n M \<and> symmetric n M"
  shows "\<exists>M'. count_publication ids pub M = Inr M' \<and> square n M' \<and> symmetric n M'"
proof -
  let ?as = "resolved_authors ids pub"
  have inner: "\<exists>t'. for_each (\<lambda>j. count_pair ids (?as ! i) (?as ! j)) [i + 1 ..< length ?as] t = Inr t'
                 \<and> square n t' \<and> symmetric n t'"
    if i: "i \<in> set [0 ..< length ?as]" and t: "square n t \<and> symmetric n t" for i t
  proof (rule for_each_invariant [where P = "\<lambda>M. square n M \<and> symmetric n M", OF t])
    fix j u assume j: "j \<in> set [i + 1 ..< length ?as]" and u: "square n u \<and> symmetric n u"
    from i obtain ki where ki: "ids (?as ! i) = Some ki"
      using resolved_authors_known [of i ids pub] by auto
    from j obtain kj where kj: "ids (?as ! j) = Some kj"
      using resolved_authors_known [of j ids pub] by auto
    from u ki kj bounded [OF ki] bounded [OF kj]
    show "\<exists>t'. count_pair ids (?as ! i) (?as ! j) u = Inr t' \<and> square n t' \<and> symmetric n t'"
      using count_pair_symmetric by blast
  qed
  have "\<exists>M'. for_each (\<lambda>i. for_each (\<lambda>j. count_pair ids (?as ! i) (?as ! j)) [i + 1 ..< length ?as])
                 [0 ..< length ?as] M = Inr M' \<and> square n M' \<and> symmetric n M'"
    by (rule for_each_invariant [where P = "\<lambda>M. square n M \<and> symmetric n M", OF inv]) (rule inner)
  then show ?thesis by (simp add: count_publication_def Let_def)
qed

lemma zeros_square: "square n (replicate n (replicate n 0))"
  by (simp add: square_def)

lemma zeros_symmetric: "symmetric n (replicate n (replicate n 0))"
  by (simp add: symmetric_def)

lemma build_coauthor_matrix_loaded:
  "\<exists>M. build_coauthor_matrix (load_data rs ps) = Inr ((load_data rs ps)\<lparr>coauthor_matrix := Some M\<rparr>)
       \<and> square (length rs) M \<and> symmetric (length rs) M"
proof -
  let ?s = "load_data rs ps" and ?n = "length rs"
  have "\<exists>M. for_each (count_publication (researcher_ids ?s)) (publications ?s)
               (replicate ?n (replicate ?n 0)) = Inr M \<and> square ?n M \<and> symmetric ?n M"
  proof (rule for_each_invariant [where P = "\<lambda>M. square ?n M \<and> symmetric ?n M"])
    show "square ?n (replicate ?n (replicate ?n 0)) \<and> symmetric ?n (replicate ?n (replicate ?n 0))"
      by (simp add: zeros_square zeros_symmetric)
  next
    fix pub t assume "square ?n t \<and> symmetric ?n t"
    then show "\<exists>t'. count_publication (researcher_ids ?s) pub t = Inr t' \<and> square ?n t' \<and> symmetric ?n t'"
      by (rule count_publication_symmetric [rotated]) (rule load_data_ids_bounded)
  qed
  then obtain M where M: "for_each (count_publication (researcher_ids ?s)) (publications ?s)
               (replicate ?n (replicate ?n 0)) = Inr M" "square ?n M" "symmetric ?n M"
    by blast
  have "length (researchers ?s) = ?n" by (simp add: load_data_def)
  with M(1) have "build_coauthor_matrix ?s = Inr (?s\<lparr>coauthor_matrix := Some M\<rparr>)"
    by (simp add: build_coauthor_matrix_def Let_def)
  with M(2,3) show ?thesis by blast
qed

subsection \<open>The exact weights\<close>

lemma sum_list_nth_count:
  "sum_list (map (\<lambda>j. if b = A ! j then 1 else 0) [0 ..< length A]) = count_list A b"
proof -
  have "map (\<lambda>j. if b = A ! j then 1 else (0::nat)) [0 ..< length A]
          = map (\<lambda>e. if b = e then 1 else 0) (map (\<lambda>j. A ! j) [0 ..< length A])"
    by simp
  also have "\<dots> = map (\<lambda>e. if b = e then 1 else 0) A"
    by (simp only: map_nth)
  finally have "sum_list (map (\<lambda>j. if b = A ! j then 1 else 0) [0 ..< length A])
          = sum_list (map (\<lambda>e. if b = e then 1 else (0::nat)) A)"
    by simp
  also have "\<dots> = count_list A b"
    by (induction A) auto
  finally show ?thesis .
qed

lemma pair_sum_Nil: "pair_sum [] a b = 0"
  by (simp add: pair_sum_def)

lemma first_row_sum:
  "sum_list (map (\<lambda>j. (if a = x \<and> b = A ! j then 1 else 0) + (if a = A ! j \<and> b = x then 1 else (0::nat)))
       [0 ..< length A])
   = (if a = x then count_list A b else 0) + (if b = x then count_list A a else 0)"
proof -
  have "sum_list (map (\<lambda>j. (if a = x \<and> b = A ! j then 1 else 0) + (if a = A ! j \<and> b = x then 1 else (0::nat)))
       [0 ..< length A])
     = sum_list (map (\<lambda>j. if a = x \<and> b = A ! j then 1 else 0) [0 ..< length A])
       + sum_list (map (\<lambda>j. if a = A ! j \<and> b = x then 1 else (0::nat)) [0 ..< length A])"
    by (simp add: sum_list_addf)
  moreover have "sum_list (map (\<lambda>j. if a = x \<and> b = A ! j then 1 else 0) [0 ..< length A])
     = (if a = x then count_list A b else 0)"
    using sum_list_nth_count [of b A] by (cases "a = x") simp_all
  moreover have "sum_list (map (\<lambda>j. if a = A ! j \<and> b = x then 1 else (0::nat)) [0 ..< length A])
     = (if b = x then count_list A a else 0)"
    using sum_list_nth_count [of a A] by (cases "b = x") simp_all
  ultimately show ?thesis by simp
qed

lemma sum_list_upt_Suc:
  "sum_list (map f [Suc m ..< Suc n]) = sum_list (map (\<lambda>j. f (Suc j)) [m ..< n])"
proof -
  have "[Suc m ..< Suc n] = map Suc [m ..< n]" by (simp only: map_Suc_upt)
  then show ?thesis by (simp only: map_map comp_def)
qed

lemma pair_sum_Cons:
  "pair_sum (x # A) a b =
     (if a = x then count_list A b else 0) + (if b = x then count_list A a else 0) + pair_sum A a b"
proof -
  let ?g = "\<lambda>B i j. (if a = B ! i \<and> b = B ! j then 1 else 0)
                     + (if a = B ! j \<and> b = B ! i then 1 else (0::nat))"
  let ?row = "\<lambda>B i. sum_list (map (?g B i) [i + 1 ..< length B])"
  have up: "[0 ..< length (x # A)] = 0 # [Suc 0 ..< Suc (length A)]"
    by (simp add: upt_conv_Cons del: upt_Suc)
  have row0: "?row (x # A) 0 =
      sum_list (map (\<lambda>j. (if a = x \<and> b = A ! j then 1 else 0) + (if a = A ! j \<and> b = x then 1 else 0))
                  [0 ..< length A])"
  proof -
    have "?row (x # A) 0 = sum_list (map (?g (x # A) 0) [Suc 0 ..< Suc (length A)])" by simp
    also have "\<dots> = sum_list (map (\<lambda>j. ?g (x # A) 0 (Suc j)) [0 ..< length A])"
      by (rule sum_list_upt_Suc)
    finally show ?thesis by simp
  qed
  have rowS: "?row (x # A) (Suc i) = ?row A i" for i
  proof -
    have "?row (x # A) (Suc i) = sum_list (map (?g (x # A) (Suc i)) [Suc (i + 1) ..< Suc (length A)])"
      by simp
    also have "\<dots> = sum_list (map (\<lambda>j. ?g (x # A) (Suc i) (Suc j)) [i + 1 ..< length A])"
      by (rule sum_list_upt_Suc)
    finally show ?thesis by simp
  qed
  have "pair_sum (x # A) a b = sum_list (map (?row (x # A)) [0 ..< length (x # A)])"
    by (simp only: pair_sum_def)
  also have "\<dots> = ?row (x # A) 0 + sum_list (map (?row (x # A)) [Suc 0 ..< Suc (length A)])"
    by (simp only: up list.map sum_list.Cons)
  also have "sum_list (map (?row (x # A)) [Suc 0 ..< Suc (length A)])
               = sum_list (map (\<lambda>i. ?row (x # A) (Suc i)) [0 ..< length A])"
    by (rule sum_list_upt_Suc)
  also have "\<dots> = sum_list (map (?row A) [0 ..< length A])"
    by (simp only: rowS)
  also have "\<dots> = pair_sum A a b"
    by (simp only: pair_sum_def)
  finally show ?thesis
    by (simp only: row0 first_row_sum)
qed

lemma pair_sum_count:
  "pair_sum A a b =
     (if a = b then count_list A a * (count_list A a - 1) else count_list A a * count_list A b)"
proof (induction A)
  case Nil
  show ?case by (simp add: pair_sum_Nil)
next
  case (Cons x A)
  show ?case
    unfolding pair_sum_Cons Cons.IH
    by (cases "count_list A a") (auto simp: algebra_simps)
qed

lemma for_each_accumulate:
  assumes "square n s"
    and "\<And>e t. e \<in> set xs \<Longrightarrow> square n t \<Longrightarrow>
           \<exists>t'. body e t = Inr t' \<and> square n t' \<and>
                (\<forall>x < n. \<forall>y < n. t' ! x ! y = t ! x ! y + g e x y)"
  shows "\<exists>s'. for_each body xs s = Inr s' \<and> square n s' \<and>
           (\<forall>x < n. \<forall>y < n. s' ! x ! y = s ! x ! y + sum_list (map (\<lambda>e. g e x y) xs))"
  using assms
proof (induction xs arbitrary: s)
  case Nil
  then show ?case by simp
next
  case (Cons e xs)
  from Cons.prems(2) [of e s] Cons.prems(1) obtain t where
    t: "body e s = Inr t" "square n t" "\<forall>x < n. \<forall>y < n. t ! x ! y = s ! x ! y + g e x y"
    by auto
  have "\<exists>s'. for_each body xs t = Inr s' \<and> square n s' \<and>
           (\<forall>x < n. \<forall>y < n. s' ! x ! y = t ! x ! y + sum_list (map (\<lambda>e. g e x y) xs))"
    by (rule Cons.IH [OF t(2)]) (simp add: Cons.prems(2))
  then obtain s' where
    s': "for_each body xs t = Inr s'" "square n s'"
        "\<forall>x < n. \<forall>y < n. s' ! x ! y = t ! x ! y + sum_list (map (\<lambda>e. g e x y) xs)"
    by blast
  have "\<forall>x < n. \<forall>y < n. s' ! x ! y = s ! x ! y + sum_list (map (\<lambda>e. g e x y) (e # xs))"
    using t(3) s'(3) by simp
  with t(1) s'(1,2) show ?case by simp
qed

lemma count_publication_adds:
  assumes bounded: "\<And>u k. ids u = Some k \<Longrightarrow> k < n"
    and M: "square n M"
  shows "\<exists>M'. count_publication ids pub M = Inr M' \<and> square n M' \<and>
           (\<forall>x < n. \<forall>y < n. M' ! x ! y = M ! x ! y + position_pairs ids (resolved_authors ids pub) x y)"
proof -
  let ?A = "resolved_authors ids pub"
  let ?g = "\<lambda>i j x y. (if ids (?A ! i) = Some x \<and> ids (?A ! j) = Some y then 1 else 0)
                      + (if ids (?A ! j) = Some x \<and> ids (?A ! i) = Some y then 1 else (0::nat))"
  have inner: "\<exists>t'. for_each (\<lambda>j. count_pair ids (?A ! i) (?A ! j)) [i + 1 ..< length ?A] t = Inr t'
                 \<and> square n t' \<and>
                 (\<forall>x < n. \<forall>y < n. t' ! x ! y = t ! x ! y
                     + sum_list (map (\<lambda>j. ?g i j x y) [i + 1 ..< length ?A]))"
    if i: "i \<in> set [0 ..< length ?A]" and t: "square n t" for i t
  proof (rule for_each_accumulate [OF t])
    fix j u assume j: "j \<in> set [i + 1 ..< length ?A]" and u: "square n u"
    from i obtain ki where ki: "ids (?A ! i) = Some ki"
      using resolved_authors_known [of i ids pub] by auto
    from j obtain kj where kj: "ids (?A ! j) = Some kj"
      using resolved_authors_known [of j ids pub] by auto
    from count_pair_square [OF u ki kj bounded [OF ki] bounded [OF kj]] obtain u' where
      u': "count_pair ids (?A ! i) (?A ! j) u = Inr u'" "square n u'"
          "\<forall>x < n. \<forall>y < n. u' ! x ! y =
             u ! x ! y + (if x = ki \<and> y = kj then 1 else 0) + (if x = kj \<and> y = ki then 1 else 0)"
      by blast
    have "\<forall>x < n. \<forall>y < n. u' ! x ! y = u ! x ! y + ?g i j x y"
    proof (intro allI impI)
      fix x y assume "x < n" "y < n"
      with u'(3) have "u' ! x ! y =
             u ! x ! y + (if x = ki \<and> y = kj then 1 else 0) + (if x = kj \<and> y = ki then 1 else 0)"
        by blast
      also have "\<dots> = u ! x ! y + ?g i j x y"
        unfolding ki kj by (simp add: eq_commute [of x] eq_commute [of y])
      finally show "u' ! x ! y = u ! x ! y + ?g i j x y" .
    qed
    with u'(1,2)
    show "\<exists>t'. count_pair ids (?A ! i) (?A ! j) u = Inr t' \<and> square n t' \<and>
            (\<forall>x < n. \<forall>y < n. t' ! x ! y = u ! x ! y + ?g i j x y)"
      by blast
  qed
  have "\<exists>M'. for_each (\<lambda>i. for_each (\<lambda>j. count_pair ids (?A ! i) (?A ! j)) [i + 1 ..< length ?A])
                 [0 ..< length ?A] M = Inr M' \<and> square n M' \<and>
              (\<forall>x < n. \<forall>y < n. M' ! x ! y = M ! x ! y
                 + sum_list (map (\<lambda>i. sum_list (map (\<lambda>j. ?g i j x y) [i + 1 ..< length ?A]))
                              [0 ..< length ?A]))"
    by (rule for_each_accumulate [OF M]) (rule inner)
  then show ?thesis
    by (simp add: count_publication_def Let_def position_pairs_def)
qed

lemma position_pairs_names:
  assumes inj: "\<And>u v k. ids u = Some k \<Longrightarrow> ids v = Some k \<Longrightarrow> u = v"
    and a: "ids a = Some x" and b: "ids b = Some y"
  shows "position_pairs ids A x y = pair_sum A a b"
proof -
  have eq: "(ids u = Some x) = (a = u)" "(ids u = Some y) = (b = u)" for u
    using inj a b by auto
  show ?thesis
    unfolding position_pairs_def pair_sum_def eq ..
qed

lemma build_coauthor_matrix_adds:
  "\<exists>M. build_coauthor_matrix (load_data rs ps) = Inr ((load_data rs ps)\<lparr>coauthor_matrix := Some M\<rparr>)
       \<and> square (length rs) M
       \<and> (\<forall>x < length rs. \<forall>y < length rs.
            M ! x ! y = sum_list (map (\<lambda>pub. position_pairs (researcher_ids (load_data rs ps))
                                       (resolved_authors (researcher_ids (load_data rs ps)) pub) x y) ps))"
proof -
  let ?s = "load_data rs ps" and ?n = "length rs"
  let ?ids = "researcher_ids ?s"
  have "\<exists>M. for_each (count_publication ?ids) (publications ?s)
               (replicate ?n (replicate ?n 0)) = Inr M \<and> square ?n M \<and>
             (\<forall>x < ?n. \<forall>y < ?n. M ! x ! y = replicate ?n (replicate ?n 0) ! x ! y
                + sum_list (map (\<lambda>pub. position_pairs ?ids (resolved_authors ?ids pub) x y)
                     (publications ?s)))"
  proof (rule for_each_accumulate [OF zeros_square])
    fix pub t assume "square ?n t"
    then show "\<exists>t'. count_publication ?ids pub t = Inr t' \<and> square ?n t' \<and>
       (\<forall>x < ?n. \<forall>y < ?n. t' ! x ! y = t ! x ! y + position_pairs ?ids (resolved_authors ?ids pub) x y)"
      by (rule count_publication_adds [rotated]) (rule load_data_ids_bounded)
  qed
  then obtain M where M: "for_each (count_publication ?ids) (publications ?s)
               (replicate ?n (replicate ?n 0)) = Inr M" "square ?n M"
     "\<forall>x < ?n. \<forall>y < ?n. M ! x ! y = replicate ?n (replicate ?n 0) ! x ! y
                + sum_list (map (\<lambda>pub. position_pairs ?ids (resolved_authors ?ids pub) x y)
                     (publications ?s))"
    by blast
  have p: "publications ?s = ps" "length (researchers ?s) = ?n" by (simp_all add: load_data_def)
  from M(1) p have "build_coauthor_matrix ?s = Inr (?s\<lparr>coauthor_matrix := Some M\<rparr>)"
    by (simp add: build_coauthor_matrix_def Let_def)
  moreover from M(3) p have "\<forall>x < ?n. \<forall>y < ?n.
            M ! x ! y = sum_list (map (\<lambda>pub. position_pairs ?ids (resolved_authors ?ids pub) x y) ps)"
    by simp
  ultimately show ?thesis using M(2) by blast
qed

lemma coauthor_weight:
  assumes a: "researcher_ids (load_data rs ps) a = Some x"
    and b: "researcher_ids (load_data rs ps) b = Some y"
  shows "\<exists>M. build_coauthor_matrix (load_data rs ps) = Inr ((load_data rs ps)\<lparr>coauthor_matrix := Some M\<rparr>)
       \<and> weight ((load_data rs ps)\<lparr>coauthor_matrix := Some M\<rparr>) a b
           = Some (sum_list (map (\<lambda>pub. pair_sum (resolved_authors (researcher_ids (load_data rs ps)) pub) a b) ps))"
proof -
  let ?s = "load_data rs ps"
  let ?ids = "researcher_ids ?s"
  from build_coauthor_matrix_adds [of rs ps] obtain M where
    M: "build_coauthor_matrix ?s = Inr (?s\<lparr>coauthor_matrix := Some M\<rparr>)" "square (length rs) M"
       "\<forall>x < length rs. \<forall>y < length rs.
            M ! x ! y = sum_list (map (\<lambda>pub. position_pairs ?ids (resolved_authors ?ids pub) x y) ps)"
    by blast
  from load_data_ids_bounded [OF a] load_data_ids_bounded [OF b]
  have xy: "x < length rs" "y < length rs" .
  with M(2) have len: "length M = length rs" "length (M ! x) = length rs"
    by (simp_all add: square_def)
  have "position_pairs ?ids A x y = pair_sum A a b" for A
    by (rule position_pairs_names [OF _ a b]) (rule load_data_ids_inj)
  with M(3) xy have "M ! x ! y = sum_list (map (\<lambda>pub. pair_sum (resolved_authors ?ids pub) a b) ps)"
    by simp
  with a b xy len have "weight (?s\<lparr>coauthor_matrix := Some M\<rparr>) a b
           = Some (sum_list (map (\<lambda>pub. pair_sum (resolved_authors ?ids pub) a b) ps))"
    by (simp add: weight_def)
  with M(1) show ?thesis by blast
qed

lemma sum_list_indicator:
  "sum_list (map (\<lambda>x. if P x then 1 else (0::nat)) xs) = length (filter P xs)"
  by (induction xs) simp_all

lemma count_list_at_most_one:
  "count_list A a \<le> 1 \<Longrightarrow> count_list A a = (if a \<in> set A then 1 else 0)"
  using count_list_0_iff [of A a] by (cases "a \<in> set A") auto

section \<open>The profile texts\<close>

lemma str_contains_literal:
  "literal_pattern pat \<Longrightarrow> str_contains re_compile pat = Inr (\<lambda>cell. has_substring cell pat)"
  by (simp add: str_contains_def)

lemma combined_text_literal:
  "literal_pattern (name r) \<Longrightarrow>
   combined_text re_compile pubs r =
     Inr (research_interests r @ '' '' @
          join '' '' (map pub_keywords (filter (\<lambda>p. has_substring (authors p) (name r)) pubs)))"
  by (simp add: combined_text_def researcher_pubs_def str_contains_literal)


lemma combined_text_rejected:
  "str_contains re_compile (name r) = Inl e \<Longrightarrow> combined_text re_compile pubs r = Inl e"
  by (simp add: combined_text_def researcher_pubs_def)

lemma append_each_length: "append_each f xs = Inr ys \<Longrightarrow> length ys = length xs"
  by (induction xs arbitrary: ys) (auto split: sum.splits)



lemma text_data_length: "text_data re_compile s = Inr docs \<Longrightarrow> length docs = length (researchers s)"
  unfolding text_data_def by (rule append_each_length)



section \<open>The vectorizer\<close>



lemma l2_normalize_length: "length (l2_normalize v) = length v"
  by (simp add: l2_normalize_def Let_def)


lemma tfidf_row_length: "length (tfidf_row toks vocab d) = length vocab"
  by (simp add: tfidf_row_def l2_normalize_length)




lemma idf_ge_one: "1 \<le> idf toks t"
proof -
  have "length (filter (\<lambda>d. t \<in> set d) toks) \<le> length toks" by simp
  then have "1 \<le> (1 + real (length toks)) / (1 + real (length (filter (\<lambda>d. t \<in> set d) toks)))"
    by (simp add: field_simps)
  then have "0 \<le> ln ((1 + real (length toks)) / (1 + real (length (filter (\<lambda>d. t \<in> set d) toks))))"
    by simp
  then show ?thesis by (simp add: idf_def)
qed

lemma l2_normalize_first: "0 < c \<Longrightarrow> l2_normalize [c, 0] = [1, 0]"
  by (simp add: l2_normalize_def)

lemma l2_normalize_second: "0 < c \<Longrightarrow> l2_normalize [0, c] = [0, 1]"
  by (simp add: l2_normalize_def)

section \<open>The ranking\<close>

lemma argsort_set: "set (argsort v) = {0 ..< length v}"
  by (simp add: argsort_def)

lemma argsort_distinct: "distinct (argsort v)"
  by (simp add: argsort_def)

lemma argsort_length: "length (argsort v) = length v"
  by (simp add: argsort_def)

lemma py_slice_set: "set (py_slice xs a b) \<subseteq> set xs"
  unfolding py_slice_def Let_def
  by (meson set_take_subset set_drop_subset subset_trans)

lemma py_slice_distinct: "distinct xs \<Longrightarrow> distinct (py_slice xs a b)"
  by (simp add: py_slice_def Let_def)

lemma py_slice_window_length:
  assumes "0 \<le> top_n"
  shows "length (py_slice xs (- top_n - 1) (- 1)) = min (nat top_n) (length xs - 1)"
proof -
  have a: "clip_index (length xs) (- top_n - 1) = nat (int (length xs) - top_n - 1)"
    using assms by (simp add: clip_index_def algebra_simps)
  have b: "clip_index (length xs) (- 1) = length xs - 1"
    by (simp add: clip_index_def nat_diff_distrib')
  have "length (py_slice xs (- top_n - 1) (- 1)) =
          min (length xs - 1 - nat (int (length xs) - top_n - 1))
              (length xs - nat (int (length xs) - top_n - 1))"
    unfolding py_slice_def Let_def a b by simp
  also have "\<dots> = min (nat top_n) (length xs - 1)"
    using assms by linarith
  finally show ?thesis .
qed

lemma top_indices_set: "set (top_indices scores top_n) \<subseteq> {0 ..< length scores}"
  unfolding top_indices_def using py_slice_set [of "argsort scores"] argsort_set [of scores]
  by (metis set_rev)

lemma top_indices_distinct: "distinct (top_indices scores top_n)"
  by (simp add: top_indices_def py_slice_distinct argsort_distinct)

lemma top_indices_length:
  "0 \<le> top_n \<Longrightarrow> length (top_indices scores top_n) = min (nat top_n) (length scores - 1)"
  by (simp add: top_indices_def py_slice_window_length argsort_length)

lemma filter_out_length:
  "distinct xs \<Longrightarrow>
   length (filter (\<lambda>i. i \<noteq> r) xs) = (if r \<in> set xs then length xs - 1 else length xs)"
proof (induction xs)
  case Nil
  show ?case by simp
next
  case (Cons a xs)
  have "r \<in> set xs \<Longrightarrow> 0 < length xs" by (cases xs) auto
  with Cons show ?case by auto
qed

lemma recommendations_in_range:
  "\<forall>idx \<in> set idxs. idx < length rs \<Longrightarrow>
   recommendations rs scores ridx idxs =
     Inr (map (\<lambda>i. (rs ! i, scores ! i)) (filter (\<lambda>i. i \<noteq> ridx) idxs))"
  by (induction idxs) simp_all

lemma minmax_normalize_length:
  "v \<noteq> [] \<Longrightarrow> \<exists>w. minmax_normalize v = Inr w \<and> length w = length v"
  by (simp add: minmax_normalize_def)

lemma combined_scores_built:
  assumes "built s" "ridx < length (researchers s)"
  shows "\<exists>scores. combined_scores s ridx = Inr scores \<and> length scores = length (researchers s)"
proof -
  let ?n = "length (researchers s)"
  from assms(1) obtain C T where
    C: "coauthor_matrix s = Some C" "square ?n C" and
    T: "tfidf_matrix s = Some T" "length T = ?n"
    by (auto simp: built_def split: option.splits)
  from C(2) assms(2) have lenC: "length C = ?n" "length (C ! ridx) = ?n"
    by (simp_all add: square_def)
  have "cosine_similarity (T ! ridx) T \<noteq> []"
    using T(2) assms(2) by (auto simp: cosine_similarity_def)
  then obtain content where
    content: "minmax_normalize (cosine_similarity (T ! ridx) T) = Inr content"
      "length content = ?n"
    using minmax_normalize_length [of "cosine_similarity (T ! ridx) T"] T(2)
    by (auto simp: cosine_similarity_def)
  have "map real (C ! ridx) \<noteq> []"
    using lenC(2) assms(2) by auto
  then obtain collab where
    collab: "minmax_normalize (map real (C ! ridx)) = Inr collab" "length collab = ?n"
    using minmax_normalize_length [of "map real (C ! ridx)"] lenC(2) by auto
  have "\<exists>scores. combine content collab = Inr scores \<and> length scores = ?n"
    using content(2) collab(2) by (simp add: combine_def)
  then show ?thesis
    using C(1) T assms(2) lenC(1) content(1) collab(1)
    by (simp add: combined_scores_def)
qed

lemma recommend_collaborators_built:
  assumes "built s" "researcher_ids s nm = Some ridx"
  shows "\<exists>scores. combined_scores s ridx = Inr scores \<and> length scores = length (researchers s) \<and>
     recommend_collaborators s nm top_n =
       Inr (map (\<lambda>i. (researchers s ! i, scores ! i))
                (filter (\<lambda>i. i \<noteq> ridx) (top_indices scores top_n)))"
proof -
  from assms have ridx: "ridx < length (researchers s)"
    using loaded_lookup by (simp add: built_def)
  from combined_scores_built [OF assms(1) ridx] obtain scores where
    scores: "combined_scores s ridx = Inr scores" "length scores = length (researchers s)"
    by blast
  have "\<forall>idx \<in> set (top_indices scores top_n). idx < length (researchers s)"
    using top_indices_set [of scores top_n] scores(2) by auto
  from recommendations_in_range [OF this]
  have "recommend_collaborators s nm top_n =
       Inr (map (\<lambda>i. (researchers s ! i, scores ! i))
                (filter (\<lambda>i. i \<noteq> ridx) (top_indices scores top_n)))"
    using assms(2) scores(1) by (simp add: recommend_collaborators_def)
  with scores show ?thesis by blast
qed

text \<open>The returned scores are in descending order.\<close>

lemma recommendations_descending:
  assumes "built s" "researcher_ids s nm = Some ridx"
    and "recommend_collaborators s nm top_n = Inr recs"
  shows "sorted (rev (map snd recs))"
proof -
  from recommend_collaborators_built [OF assms(1,2), of top_n] assms(3) obtain scores where
    recs: "recs = map (\<lambda>i. (researchers s ! i, scores ! i))
                (filter (\<lambda>i. i \<noteq> ridx) (top_indices scores top_n))"
    by auto
  let ?f = "\<lambda>i. scores ! i"
  let ?w = "py_slice (argsort scores) (- top_n - 1) (- 1)"
  have "sorted (map ?f (argsort scores))"
    unfolding argsort_def by (rule sorted_sort_key)
  then have "sorted (map ?f ?w)"
    unfolding py_slice_def Let_def
    by (simp add: take_map [symmetric] drop_map [symmetric])
  then have "sorted (map ?f (filter (\<lambda>i. i \<noteq> ridx) ?w))"
    by (rule sorted_filter)
  moreover have "rev (map snd recs) = map ?f (filter (\<lambda>i. i \<noteq> ridx) ?w)"
    unfolding recs top_indices_def by (simp add: rev_map rev_filter comp_def)
  ultimately show ?thesis by simp
qed

text \<open>
  When the query researcher has the strictly highest combined score, the index dropped by
  the window is the query researcher's, and the code returns the specification's ranking.
\<close>

lemma filter_eq_upt: "r < n \<Longrightarrow> filter (\<lambda>i. i = r) [0 ..< n] = [r]"
  by (induction n) (auto simp: filter_empty_conv less_Suc_eq)

lemma argsort_strict_max:
  assumes r: "ridx < length v"
    and best: "\<forall>i < length v. i \<noteq> ridx \<longrightarrow> v ! i < v ! ridx"
  shows "argsort v = sort_key (\<lambda>i. v ! i) (filter (\<lambda>i. i \<noteq> ridx) [0 ..< length v]) @ [ridx]"
proof -
  let ?f = "\<lambda>i. v ! i"
  let ?others = "filter (\<lambda>i. i \<noteq> ridx) [0 ..< length v]"
  let ?ys = "sort_key ?f ?others @ [ridx]"
  have single: "filter (\<lambda>i. i = ridx) [0 ..< length v] = [ridx]"
    using r by (rule filter_eq_upt)
  have m: "mset ?ys = mset [0 ..< length v]"
  proof -
    have "mset [0 ..< length v] = mset ?others + mset (filter (\<lambda>i. \<not> i \<noteq> ridx) [0 ..< length v])"
      by (simp only: mset_filter multiset_partition [symmetric])
    then show ?thesis using single by simp
  qed
  have lt: "v ! i < v ! ridx" if "i < length v" "i \<noteq> ridx" for i
    using best that by blast
  have key_r: "(v ! i = v ! ridx) = (i = ridx)" if i: "i < length v" for i
  proof
    assume e: "v ! i = v ! ridx"
    show "i = ridx"
    proof (rule ccontr)
      assume "i \<noteq> ridx"
      from lt [OF i this] e show False by simp
    qed
  next
    assume "i = ridx"
    then show "v ! i = v ! ridx" by simp
  qed
  have key_r': "(v ! ridx = v ! i) = (i = ridx)" if i: "i < length v" for i
    using key_r [OF i] by (simp only: eq_commute [of "v ! ridx"])
  have st: "filter (\<lambda>x. ?f k = ?f x) ?ys = filter (\<lambda>x. ?f k = ?f x) [0 ..< length v]"
    if k: "k \<in> set ?ys" for k
  proof (cases "k = ridx")
    case True
    have a: "filter (\<lambda>x. v ! ridx = v ! x) [0 ..< length v] = filter (\<lambda>i. i = ridx) [0 ..< length v]"
    proof (rule filter_cong [OF refl])
      fix x assume "x \<in> set [0 ..< length v]"
      then have "x < length v" by simp
      then show "(v ! ridx = v ! x) = (x = ridx)" by (rule key_r')
    qed
    have b: "filter (\<lambda>x. v ! ridx = v ! x) (sort_key ?f ?others) = []"
    proof -
      have "\<not> (v ! ridx = v ! x)" if "x \<in> set (sort_key ?f ?others)" for x
      proof -
        from that have "x < length v" "x \<noteq> ridx" by simp_all
        with key_r' [of x] show ?thesis by simp
      qed
      then show ?thesis by (simp only: filter_empty_conv) blast
    qed
    have "filter (\<lambda>x. v ! ridx = v ! x) ?ys = [ridx]"
      by (simp only: filter_append b) simp
    with a single True show ?thesis by simp
  next
    case False
    with k have kk: "k < length v" by auto
    from lt [OF kk False] have ne: "v ! k \<noteq> v ! ridx" by simp
    have "filter (\<lambda>x. v ! k = v ! x) (sort_key ?f ?others) = filter (\<lambda>x. v ! x = v ! k) (sort_key ?f ?others)"
      by (rule filter_cong [OF refl]) (rule eq_commute)
    also have "\<dots> = filter (\<lambda>x. v ! x = v ! k) ?others"
      by (rule sort_key_stable)
    also have "\<dots> = filter (\<lambda>x. x \<noteq> ridx \<and> v ! x = v ! k) [0 ..< length v]"
      by (simp only: filter_filter)
    also have "\<dots> = filter (\<lambda>x. v ! k = v ! x) [0 ..< length v]"
    proof (rule filter_cong [OF refl])
      fix x assume "x \<in> set [0 ..< length v]"
      show "(x \<noteq> ridx \<and> v ! x = v ! k) = (v ! k = v ! x)"
      proof (cases "x = ridx")
        case True
        with ne show ?thesis by simp
      next
        case False
        then show ?thesis by (simp only: simp_thms eq_commute [of "v ! x"])
      qed
    qed
    finally have c: "filter (\<lambda>x. v ! k = v ! x) (sort_key ?f ?others)
        = filter (\<lambda>x. v ! k = v ! x) [0 ..< length v]" .
    from ne have "filter (\<lambda>x. v ! k = v ! x) [ridx] = []" by simp
    with c show ?thesis by (simp only: filter_append append_Nil2)
  qed
  have so: "sorted (map ?f ?ys)"
  proof -
    have "sorted (map ?f (sort_key ?f ?others))" by (rule sorted_sort_key)
    moreover have "\<forall>x \<in> set (map ?f (sort_key ?f ?others)). x \<le> v ! ridx"
    proof
      fix x assume "x \<in> set (map ?f (sort_key ?f ?others))"
      then obtain i where "i < length v" "i \<noteq> ridx" "x = v ! i" by auto
      with lt [of i] show "x \<le> v ! ridx" by simp
    qed
    ultimately show ?thesis by (simp add: sorted_append)
  qed
  from properties_for_sort_key [OF m st so] show ?thesis
    by (simp add: argsort_def)
qed

lemma py_slice_window_snoc:
  assumes "0 \<le> top_n"
  shows "py_slice (ws @ [r]) (- top_n - 1) (- 1) = drop (length ws - nat top_n) ws"
proof -
  have a: "clip_index (length (ws @ [r])) (- top_n - 1) = length ws - nat top_n"
    using assms by (simp add: clip_index_def)
  have b: "clip_index (length (ws @ [r])) (- 1) = length ws"
    by (simp add: clip_index_def)
  show ?thesis
    unfolding py_slice_def Let_def a b by simp
qed

lemma top_indices_when_query_is_best:
  assumes "ridx < length scores"
    and "\<forall>i < length scores. i \<noteq> ridx \<longrightarrow> scores ! i < scores ! ridx"
    and "0 \<le> top_n"
  shows "top_indices scores top_n = spec_top_candidates scores ridx (nat top_n)"
proof -
  let ?ws = "sort_key (\<lambda>i. scores ! i) (filter (\<lambda>i. i \<noteq> ridx) [0 ..< length scores])"
  have "top_indices scores top_n = rev (drop (length ?ws - nat top_n) ?ws)"
    unfolding top_indices_def argsort_strict_max [OF assms(1,2)]
    by (simp only: py_slice_window_snoc [OF assms(3)])
  also have "\<dots> = take (nat top_n) (rev ?ws)"
    by (simp only: take_rev)
  finally show ?thesis by (simp only: spec_top_candidates_def)
qed

lemma spec_top_candidates_excludes: "ridx \<notin> set (spec_top_candidates scores ridx n)"
proof
  assume "ridx \<in> set (spec_top_candidates scores ridx n)"
  then have "ridx \<in> set (rev (sort_key (\<lambda>i. scores ! i) (filter (\<lambda>i. i \<noteq> ridx) [0 ..< length scores])))"
    unfolding spec_top_candidates_def by (rule in_set_takeD)
  then show False by simp
qed

lemma recommend_when_query_is_best:
  assumes "built s" "researcher_ids s nm = Some ridx" "combined_scores s ridx = Inr scores"
    and "\<forall>i < length scores. i \<noteq> ridx \<longrightarrow> scores ! i < scores ! ridx"
    and "0 \<le> top_n"
  shows "recommend_collaborators s nm top_n =
           Inr (map (\<lambda>i. (researchers s ! i, scores ! i)) (spec_top_candidates scores ridx (nat top_n)))"
proof -
  from recommend_collaborators_built [OF assms(1,2), of top_n] assms(3)
  have len: "length scores = length (researchers s)"
    and rec: "recommend_collaborators s nm top_n =
       Inr (map (\<lambda>i. (researchers s ! i, scores ! i))
                (filter (\<lambda>i. i \<noteq> ridx) (top_indices scores top_n)))"
    by auto
  from assms(1,2) have "ridx < length (researchers s)"
    using loaded_lookup by (simp add: built_def)
  with len have r: "ridx < length scores" by simp
  have "filter (\<lambda>i. i \<noteq> ridx) (top_indices scores top_n) = spec_top_candidates scores ridx (nat top_n)"
    unfolding top_indices_when_query_is_best [OF r assms(4,5)]
    using spec_top_candidates_excludes [of ridx scores "nat top_n"]
    by (auto simp: filter_id_conv)
  with rec show ?thesis by simp
qed

text \<open>The two build steps, run on loaded tables, give a built model.\<close>

lemma builds_establish_built:
  assumes "build_coauthor_matrix (load_data rs ps) = Inr s1"
    and "build_content_profiles re_compile s1 = Inr s2"
  shows "built s2"
proof -
  from build_coauthor_matrix_loaded [of rs ps] assms(1) obtain M where
    s1: "s1 = (load_data rs ps)\<lparr>coauthor_matrix := Some M\<rparr>" and M: "square (length rs) M"
    by auto
  from assms(2) obtain docs T where
    docs: "text_data re_compile s1 = Inr docs" and
    T: "fit_transform docs = Inr T" and s2: "s2 = s1\<lparr>tfidf_matrix := Some T\<rparr>"
    by (auto simp: build_content_profiles_def split: sum.splits)
  let ?toks = "map tokenize docs"
  from T have T': "T = map (tfidf_row ?toks (vocabulary ?toks)) ?toks"
    by (auto simp: fit_transform_def Let_def split: if_splits)
  have n: "length T = length rs"
    unfolding T' using text_data_length [OF docs] by (simp add: s1 load_data_def)
  have rows: "list_all (\<lambda>r. length r = length (hd T)) T"
  proof -
    have all: "\<forall>r \<in> set T. length r = length (vocabulary ?toks)"
      unfolding T' by (auto simp: tfidf_row_length)
    then have "T \<noteq> [] \<Longrightarrow> length (hd T) = length (vocabulary ?toks)"
      by (cases T) auto
    with all show ?thesis by (cases T) (auto simp: list_all_iff)
  qed
  show ?thesis
    unfolding s2 s1 using M n rows by (simp add: built_def loaded_def load_data_def)
qed

section \<open>The small data sets, evaluated\<close>

lemma example_name: "name alice = ''Alice''" "name bob = ''Bob''" "name carol = ''Carol''"
  by (simp_all add: alice_def bob_def carol_def)

lemma example_names: "map name [alice, bob, carol] = [''Alice'', ''Bob'', ''Carol'']"
  by (simp add: alice_def bob_def carol_def)

lemma example_ids:
  "make_researcher_ids [''Alice'', ''Bob'', ''Carol''] ''Alice'' = Some 0"
  "make_researcher_ids [''Alice'', ''Bob'', ''Carol''] ''Bob'' = Some 1"
  "make_researcher_ids [''Alice'', ''Bob'', ''Carol''] ''Carol'' = Some 2"
  by (simp_all add: make_researcher_ids_def upt_rec)

lemma load_data_ids_example:
  "researcher_ids (load_data [alice, bob, carol] ps) = make_researcher_ids [''Alice'', ''Bob'', ''Carol'']"
  by (simp add: load_data_def example_name)

lemma load_data_example_ids: "researcher_ids ((load_data [alice, bob, carol] ps)\<lparr>coauthor_matrix := c\<rparr>)
   = make_researcher_ids [''Alice'', ''Bob'', ''Carol'']"
  by (simp add: load_data_def alice_def bob_def carol_def)

lemma strip_example: "strip ''Alice'' = ''Alice''" "strip '' Bob'' = ''Bob''"
  by (simp_all add: strip_def is_space_def)

lemma resolved_authors_example:
  "resolved_authors (make_researcher_ids [''Alice'', ''Bob'', ''Carol'']) joint_paper = [''Alice'', ''Bob'']"
  by (simp add: resolved_authors_def joint_paper_def strip_example example_ids)

lemma count_publication_example:
  "count_publication (make_researcher_ids [''Alice'', ''Bob'', ''Carol'']) joint_paper
     [[0, 0, 0], [0, 0, 0], [0, 0, 0]] = Inr [[0, 1, 0], [1, 0, 0], [0, 0, 0]]"
  by (simp add: count_publication_def resolved_authors_example upt_rec count_pair_def
      lookup_id_def incr_def example_ids)

lemma build_coauthor_matrix_example:
  "build_coauthor_matrix (load_data [alice, bob, carol] [joint_paper]) =
     Inr ((load_data [alice, bob, carol] [joint_paper])
            \<lparr>coauthor_matrix := Some [[0, 1, 0], [1, 0, 0], [0, 0, 0]]\<rparr>)"
proof -
  have z: "replicate (length [alice, bob, carol]) (replicate (length [alice, bob, carol]) (0::nat))
             = [[0, 0, 0], [0, 0, 0], [0, 0, 0]]"
    by (simp add: numeral_3_eq_3)
  show ?thesis
    unfolding build_coauthor_matrix_def Let_def
    by (simp only: load_data_def recommender.simps example_names z for_each.simps
        count_publication_example sum.case)
qed

lemma literal_names_example:
  "literal_pattern ''Alice''" "literal_pattern ''Bob''" "literal_pattern ''Carol''"
  "literal_pattern ''Dana''" "literal_pattern ''Ann Lee''" "literal_pattern ''Ann Leeson''"
  by (simp_all add: literal_pattern_def regex_special_def)

lemma text_data_example:
  "text_data re_compile ((load_data [alice, bob, carol] [joint_paper])\<lparr>coauthor_matrix := c\<rparr>)
     = Inr [''AI AI'', ''AI AI'', ''Genetics '']"
  by (simp add: text_data_def load_data_def combined_text_literal literal_names_example
      alice_def bob_def carol_def joint_paper_def)

lemma tokenize_example:
  "tokenize ''AI AI'' = [''ai'', ''ai'']" "tokenize ''Genetics '' = [''genetics'']"
  by (simp_all add: tokenize_def is_word_char_def lower_char_def)

lemma vocabulary_example:
  "vocabulary [[''ai'', ''ai''], [''ai'', ''ai''], [''genetics'']] = [''ai'', ''genetics'']"
  by (simp add: vocabulary_def)

lemma fit_transform_example:
  "fit_transform [''AI AI'', ''AI AI'', ''Genetics ''] = Inr [[1, 0], [1, 0], [0, 1]]"
proof -
  let ?toks = "[[''ai'', ''ai''], [''ai'', ''ai''], [''genetics'']]"
  have pos: "0 < idf ?toks t" for t
    using idf_ge_one [of ?toks t] by linarith
  have r1: "tfidf_row ?toks [''ai'', ''genetics''] [''ai'', ''ai''] = [1, 0]"
    using l2_normalize_first [of "2 * idf ?toks ''ai''"] pos [of "''ai''"]
    by (simp add: tfidf_row_def)
  have r2: "tfidf_row ?toks [''ai'', ''genetics''] [''genetics''] = [0, 1]"
    using l2_normalize_second [of "idf ?toks ''genetics''"] pos [of "''genetics''"]
    by (simp add: tfidf_row_def)
  show ?thesis
    by (simp add: fit_transform_def tokenize_example vocabulary_example r1 r2)
qed

lemma build_content_profiles_example:
  "build_content_profiles re_compile ((load_data [alice, bob, carol] [joint_paper])
            \<lparr>coauthor_matrix := Some [[0, 1, 0], [1, 0, 0], [0, 0, 0]]\<rparr>) = Inr example_model"
proof -
  let ?s = "(load_data [alice, bob, carol] [joint_paper])
            \<lparr>coauthor_matrix := Some [[0, 1, 0], [1, 0, 0], [0, 0, 0]]\<rparr>"
  have "build_content_profiles re_compile ?s
          = Inr (?s\<lparr>tfidf_matrix := Some [[1, 0], [1, 0], [0, 1]]\<rparr>)"
    unfolding build_content_profiles_def text_data_example by (simp add: fit_transform_example)
  also have "?s\<lparr>tfidf_matrix := Some [[1, 0], [1, 0], [0, 1]]\<rparr> = example_model"
    by (simp add: load_data_def example_model_def example_name)
  finally show ?thesis .
qed

lemma example_model_built: "built example_model"
  by (simp add: built_def loaded_def square_def example_model_def example_name)

lemma cosine_similarity_example: "cosine_similarity [1, 0] [[1, 0], [1, 0], [0, 1]] = [1, 1, 0]"
  by (simp add: cosine_similarity_def dot_def l2_normalize_def)

lemma minmax_normalize_example:
  "minmax_normalize [1, 1, 0] = Inr [1000000 / 1000001, 1000000 / 1000001, 0]"
  "minmax_normalize [0, 1, 0] = Inr [0, 1000000 / 1000001, 0]"
  by (simp_all add: minmax_normalize_def)

lemma combine_example:
  "combine [1000000 / 1000001, 1000000 / 1000001, 0] [0, 1000000 / 1000001, 0]
     = Inr [600000 / 1000001, 1000000 / 1000001, 0]"
  by (simp add: combine_def)

lemma combined_scores_example:
  "combined_scores example_model 0 = Inr [600000 / 1000001, 1000000 / 1000001, 0]"
  by (simp add: combined_scores_def example_model_def cosine_similarity_example
      minmax_normalize_example combine_example)

lemma argsort_example: "argsort [600000 / 1000001, 1000000 / 1000001, 0] = [2, 0, 1]"
  by (simp add: argsort_def upt_rec)

lemma top_indices_example:
  "top_indices [600000 / 1000001, 1000000 / 1000001, 0] 1 = [0]"
  "top_indices [600000 / 1000001, 1000000 / 1000001, 0] 2 = [0, 2]"
  by (simp_all add: top_indices_def argsort_example py_slice_def clip_index_def)

lemma example_model_ids: "researcher_ids example_model ''Alice'' = Some 0"
  by (simp add: example_model_def example_ids)

lemma example_model_researchers: "researchers example_model = [alice, bob, carol]"
  by (simp add: example_model_def)

lemma recommend_example_1: "recommend_collaborators example_model ''Alice'' 1 = Inr []"
  by (simp add: recommend_collaborators_def example_model_ids combined_scores_example
      top_indices_example)

lemma recommend_example_2: "recommend_collaborators example_model ''Alice'' 2 = Inr [(carol, 0)]"
  by (simp add: recommend_collaborators_def example_model_ids example_model_researchers
      combined_scores_example top_indices_example)

lemma spec_example: "spec_top_candidates [600000 / 1000001, 1000000 / 1000001, 0] 0 2 = [1, 2]"
  by (simp add: spec_top_candidates_def upt_rec)

lemma split_on_duplicate: "split_on (CHR '','') ''Alice, Alice, Bob'' = [''Alice'', '' Alice'', '' Bob'']"
  by simp

lemma strip_duplicate: "strip '' Alice'' = ''Alice''"
  by (simp add: strip_def is_space_def)

lemma resolved_authors_duplicate: "resolved_authors (make_researcher_ids [''Alice'', ''Bob'', ''Carol'']) duplicate_paper
   = [''Alice'', ''Alice'', ''Bob'']"
  by (simp add: resolved_authors_def duplicate_paper_def strip_duplicate strip_example example_ids)

lemma count_publication_duplicate: "count_publication (make_researcher_ids [''Alice'', ''Bob'', ''Carol'']) duplicate_paper
     [[0, 0, 0], [0, 0, 0], [0, 0, 0]] = Inr [[2, 2, 0], [2, 0, 0], [0, 0, 0]]"
  by (simp add: count_publication_def resolved_authors_duplicate upt_rec count_pair_def
      lookup_id_def incr_def example_ids)

lemma build_coauthor_matrix_duplicate: "build_coauthor_matrix (load_data [alice, bob, carol] [duplicate_paper]) =
     Inr ((load_data [alice, bob, carol] [duplicate_paper])
            \<lparr>coauthor_matrix := Some [[2, 2, 0], [2, 0, 0], [0, 0, 0]]\<rparr>)"
proof -
  have z: "replicate (length [alice, bob, carol]) (replicate (length [alice, bob, carol]) (0::nat))
             = [[0, 0, 0], [0, 0, 0], [0, 0, 0]]"
    by (simp add: numeral_3_eq_3)
  show ?thesis
    unfolding build_coauthor_matrix_def Let_def
    by (simp only: load_data_def recommender.simps example_names z for_each.simps
        count_publication_duplicate sum.case)
qed





section \<open>Claims on the co-authorship matrix\<close>

text \<open>
  C6. For every researcher table and every publication table, \<^verbatim>\<open>build_coauthor_matrix\<close>
  returns, and the matrix it stores has one row and one column per researcher and is
  symmetric: the entry at \<open>(a, b)\<close> equals the entry at \<open>(b, a)\<close> for all researcher
  indices, and so the weight of two names does not depend on their order.
\<close>

theorem coauthor_matrix_symmetric:
  "\<exists>M. build_coauthor_matrix (load_data rs ps) = Inr ((load_data rs ps)\<lparr>coauthor_matrix := Some M\<rparr>)
       \<and> square (length rs) M
       \<and> (\<forall>a < length rs. \<forall>b < length rs. M ! a ! b = M ! b ! a)
       \<and> (\<forall>x y. weight ((load_data rs ps)\<lparr>coauthor_matrix := Some M\<rparr>) x y
                = weight ((load_data rs ps)\<lparr>coauthor_matrix := Some M\<rparr>) y x)"
proof -
  from build_coauthor_matrix_loaded [of rs ps] obtain M where
    M: "build_coauthor_matrix (load_data rs ps) = Inr ((load_data rs ps)\<lparr>coauthor_matrix := Some M\<rparr>)"
       "square (length rs) M" "symmetric (length rs) M"
    by blast
  let ?s = "(load_data rs ps)\<lparr>coauthor_matrix := Some M\<rparr>"
  have sym: "\<forall>a < length rs. \<forall>b < length rs. M ! a ! b = M ! b ! a"
    using M(3) by (simp add: symmetric_def)
  have "weight ?s x y = weight ?s y x" for x y
  proof (cases "researcher_ids (load_data rs ps) x")
    case None
    then show ?thesis by (simp add: weight_def split: option.splits)
  next
    case (Some i)
    note i = this
    show ?thesis
    proof (cases "researcher_ids (load_data rs ps) y")
      case None
      then show ?thesis by (simp add: weight_def split: option.splits)
    next
      case (Some j)
      from load_data_ids_bounded [OF i] load_data_ids_bounded [OF Some]
      have ij: "i < length rs" "j < length rs" .
      with M(2) have len: "length M = length rs" "length (M ! i) = length rs" "length (M ! j) = length rs"
        by (simp_all add: square_def)
      from sym ij have "M ! i ! j = M ! j ! i" by blast
      with i Some ij len show ?thesis by (simp add: weight_def)
    qed
  qed
  with M(1,2) sym show ?thesis by blast
qed

theorem coauthor_matrix_symmetric_witness:
  "(0::nat) < length [alice, bob, carol] \<and> (1::nat) < length [alice, bob, carol] \<and>
   (\<exists>M. build_coauthor_matrix (load_data [alice, bob, carol] [joint_paper])
           = Inr ((load_data [alice, bob, carol] [joint_paper])\<lparr>coauthor_matrix := Some M\<rparr>)
        \<and> M ! 0 ! 1 = M ! 1 ! 0 \<and> M = [[0, 1, 0], [1, 0, 0], [0, 0, 0]])"
proof -
  from coauthor_matrix_symmetric [of "[alice, bob, carol]" "[joint_paper]"] obtain M where
    M: "build_coauthor_matrix (load_data [alice, bob, carol] [joint_paper])
          = Inr ((load_data [alice, bob, carol] [joint_paper])\<lparr>coauthor_matrix := Some M\<rparr>)"
       "\<forall>a < length [alice, bob, carol]. \<forall>b < length [alice, bob, carol]. M ! a ! b = M ! b ! a"
    by blast
  from M(2) have "M ! 0 ! 1 = M ! 1 ! 0" by simp
  moreover from M(1) have "M = [[0, 1, 0], [1, 0, 0], [0, 0, 0]]"
    unfolding build_coauthor_matrix_example
    by (simp add: load_data_def)
  ultimately show ?thesis using M(1) by auto
qed

text \<open>
  C4. The claim: the diagonal of the co-authorship matrix is never incremented, also when a
  name occurs more than once in the author list of one publication. The code pairs the
  positions \<open>i < j\<close> of the resolved author list as it stands, and the two positions of a
  repeated name are such a pair: with the author cell \<^verbatim>\<open>Alice, Alice, Bob\<close> the diagonal
  entry of Alice is incremented twice, \<open>weight(Alice, Alice) = 2\<close>.
\<close>

theorem duplicate_name_self_loop:
  "build_coauthor_matrix (load_data [alice, bob, carol] [duplicate_paper]) =
     Inr ((load_data [alice, bob, carol] [duplicate_paper])
            \<lparr>coauthor_matrix := Some [[2, 2, 0], [2, 0, 0], [0, 0, 0]]\<rparr>) \<and>
   weight ((load_data [alice, bob, carol] [duplicate_paper])
            \<lparr>coauthor_matrix := Some [[2, 2, 0], [2, 0, 0], [0, 0, 0]]\<rparr>) ''Alice'' ''Alice'' = Some 2"
  by (simp add: build_coauthor_matrix_duplicate weight_def load_data_example_ids example_ids)

text \<open>
  C4, amended. For every researcher table, every publication table and every name \<open>a\<close> of
  the researcher table that no publication lists more than once among its resolved
  authors, \<^verbatim>\<open>build_coauthor_matrix\<close> returns and \<open>weight(a, a) = 0\<close>.
\<close>

theorem no_self_loop_without_repetition:
  assumes "a \<in> set (map name rs)"
    and "\<forall>pub \<in> set ps. count_list (resolved_authors (researcher_ids (load_data rs ps)) pub) a \<le> 1"
  shows "\<exists>M. build_coauthor_matrix (load_data rs ps) = Inr ((load_data rs ps)\<lparr>coauthor_matrix := Some M\<rparr>)
       \<and> weight ((load_data rs ps)\<lparr>coauthor_matrix := Some M\<rparr>) a a = Some 0"
proof -
  let ?ids = "researcher_ids (load_data rs ps)"
  from load_data_known [OF assms(1)] obtain x where x: "?ids a = Some x" by blast
  from coauthor_weight [OF x x] obtain M where
    M: "build_coauthor_matrix (load_data rs ps) = Inr ((load_data rs ps)\<lparr>coauthor_matrix := Some M\<rparr>)"
       "weight ((load_data rs ps)\<lparr>coauthor_matrix := Some M\<rparr>) a a
           = Some (sum_list (map (\<lambda>pub. pair_sum (resolved_authors ?ids pub) a a) ps))"
    by blast
  have "pair_sum (resolved_authors ?ids pub) a a = 0" if "pub \<in> set ps" for pub
  proof -
    from assms(2) that have "count_list (resolved_authors ?ids pub) a \<le> 1" by blast
    then show ?thesis by (auto simp: pair_sum_count)
  qed
  then have "map (\<lambda>pub. pair_sum (resolved_authors ?ids pub) a a) ps = map (\<lambda>pub. 0) ps"
    by simp
  then have "sum_list (map (\<lambda>pub. pair_sum (resolved_authors ?ids pub) a a) ps) = 0"
    by simp
  with M show ?thesis by auto
qed

theorem no_self_loop_without_repetition_witness:
  "''Alice'' \<in> set (map name [alice, bob, carol]) \<and>
   count_list (resolved_authors (researcher_ids (load_data [alice, bob, carol] [joint_paper])) joint_paper) ''Alice'' \<le> 1 \<and>
   (\<exists>M. build_coauthor_matrix (load_data [alice, bob, carol] [joint_paper])
          = Inr ((load_data [alice, bob, carol] [joint_paper])\<lparr>coauthor_matrix := Some M\<rparr>)
       \<and> weight ((load_data [alice, bob, carol] [joint_paper])\<lparr>coauthor_matrix := Some M\<rparr>)
            ''Alice'' ''Alice'' = Some 0)"
proof -
  have a: "''Alice'' \<in> set (map name [alice, bob, carol])" by (simp add: example_name)
  have c: "count_list (resolved_authors (researcher_ids (load_data [alice, bob, carol] [joint_paper])) joint_paper) ''Alice'' \<le> 1"
    by (simp add: load_data_ids_example resolved_authors_example)
  then have h: "\<forall>pub \<in> set [joint_paper].
      count_list (resolved_authors (researcher_ids (load_data [alice, bob, carol] [joint_paper])) pub) ''Alice'' \<le> 1"
    by simp
  from no_self_loop_without_repetition [OF a h] a c show ?thesis by blast
qed

text \<open>
  C5. The claim: a publication in which two distinct researchers both appear adds exactly
  one to their weight, also when a name is repeated in its author list. The code adds one
  for every pair of positions that holds the two names: the single publication with the
  author cell \<^verbatim>\<open>Alice, Alice, Bob\<close> gives \<open>weight(Alice, Bob) = 2\<close>.
\<close>

theorem duplicate_name_double_count:
  "length [duplicate_paper] = 1 \<and>
   resolved_authors (make_researcher_ids [''Alice'', ''Bob'', ''Carol'']) duplicate_paper
     = [''Alice'', ''Alice'', ''Bob''] \<and>
   build_coauthor_matrix (load_data [alice, bob, carol] [duplicate_paper]) =
     Inr ((load_data [alice, bob, carol] [duplicate_paper])
            \<lparr>coauthor_matrix := Some [[2, 2, 0], [2, 0, 0], [0, 0, 0]]\<rparr>) \<and>
   weight ((load_data [alice, bob, carol] [duplicate_paper])
            \<lparr>coauthor_matrix := Some [[2, 2, 0], [2, 0, 0], [0, 0, 0]]\<rparr>) ''Alice'' ''Bob'' = Some 2"
  by (simp add: build_coauthor_matrix_duplicate resolved_authors_duplicate weight_def
      load_data_example_ids example_ids)

text \<open>
  C5, amended. For every researcher table, every publication table and every two distinct
  names \<open>a\<close> and \<open>b\<close> of the researcher table that no publication lists more than once
  among its resolved authors, \<^verbatim>\<open>build_coauthor_matrix\<close> returns and \<open>weight(a, b)\<close> is the
  number of publications whose resolved authors hold both \<open>a\<close> and \<open>b\<close>.
\<close>

theorem shared_publications_weight:
  assumes "a \<in> set (map name rs)" "b \<in> set (map name rs)" "a \<noteq> b"
    and "\<forall>pub \<in> set ps.
           count_list (resolved_authors (researcher_ids (load_data rs ps)) pub) a \<le> 1 \<and>
           count_list (resolved_authors (researcher_ids (load_data rs ps)) pub) b \<le> 1"
  shows "\<exists>M. build_coauthor_matrix (load_data rs ps) = Inr ((load_data rs ps)\<lparr>coauthor_matrix := Some M\<rparr>)
       \<and> weight ((load_data rs ps)\<lparr>coauthor_matrix := Some M\<rparr>) a b
           = Some (length (filter (\<lambda>pub. a \<in> set (resolved_authors (researcher_ids (load_data rs ps)) pub)
                                      \<and> b \<in> set (resolved_authors (researcher_ids (load_data rs ps)) pub)) ps))"
proof -
  let ?ids = "researcher_ids (load_data rs ps)"
  let ?both = "\<lambda>pub. a \<in> set (resolved_authors ?ids pub) \<and> b \<in> set (resolved_authors ?ids pub)"
  from load_data_known [OF assms(1)] obtain x where x: "?ids a = Some x" by blast
  from load_data_known [OF assms(2)] obtain y where y: "?ids b = Some y" by blast
  from coauthor_weight [OF x y] obtain M where
    M: "build_coauthor_matrix (load_data rs ps) = Inr ((load_data rs ps)\<lparr>coauthor_matrix := Some M\<rparr>)"
       "weight ((load_data rs ps)\<lparr>coauthor_matrix := Some M\<rparr>) a b
           = Some (sum_list (map (\<lambda>pub. pair_sum (resolved_authors ?ids pub) a b) ps))"
    by blast
  have "pair_sum (resolved_authors ?ids pub) a b = (if ?both pub then 1 else 0)"
    if "pub \<in> set ps" for pub
  proof -
    from assms(4) that have "count_list (resolved_authors ?ids pub) a \<le> 1"
      "count_list (resolved_authors ?ids pub) b \<le> 1" by auto
    then show ?thesis
      using assms(3) by (simp add: pair_sum_count count_list_at_most_one)
  qed
  then have "map (\<lambda>pub. pair_sum (resolved_authors ?ids pub) a b) ps
           = map (\<lambda>pub. if ?both pub then 1 else 0) ps"
    by simp
  then have "sum_list (map (\<lambda>pub. pair_sum (resolved_authors ?ids pub) a b) ps)
           = length (filter ?both ps)"
    by (simp only: sum_list_indicator)
  with M show ?thesis by auto
qed

theorem shared_publications_weight_witness:
  "''Alice'' \<in> set (map name [alice, bob, carol]) \<and> ''Bob'' \<in> set (map name [alice, bob, carol]) \<and>
   ''Alice'' \<noteq> ''Bob'' \<and>
   resolved_authors (researcher_ids (load_data [alice, bob, carol] [joint_paper])) joint_paper
     = [''Alice'', ''Bob''] \<and>
   (\<exists>M. build_coauthor_matrix (load_data [alice, bob, carol] [joint_paper])
          = Inr ((load_data [alice, bob, carol] [joint_paper])\<lparr>coauthor_matrix := Some M\<rparr>)
       \<and> weight ((load_data [alice, bob, carol] [joint_paper])\<lparr>coauthor_matrix := Some M\<rparr>)
            ''Alice'' ''Bob'' = Some 1)"
proof -
  let ?ids = "researcher_ids (load_data [alice, bob, carol] [joint_paper])"
  have a: "''Alice'' \<in> set (map name [alice, bob, carol])" by (simp add: example_name)
  have b: "''Bob'' \<in> set (map name [alice, bob, carol])" by (simp add: example_name)
  have n: "''Alice'' \<noteq> ''Bob''" by simp
  have r: "resolved_authors ?ids joint_paper = [''Alice'', ''Bob'']"
    by (simp add: load_data_ids_example resolved_authors_example)
  have h: "\<forall>pub \<in> set [joint_paper].
      count_list (resolved_authors ?ids pub) ''Alice'' \<le> 1 \<and>
      count_list (resolved_authors ?ids pub) ''Bob'' \<le> 1"
    by (simp add: r)
  have l: "length (filter (\<lambda>pub. ''Alice'' \<in> set (resolved_authors ?ids pub)
                                      \<and> ''Bob'' \<in> set (resolved_authors ?ids pub)) [joint_paper]) = 1"
    by (simp add: r)
  from shared_publications_weight [OF a b n h] obtain M where
    "build_coauthor_matrix (load_data [alice, bob, carol] [joint_paper])
          = Inr ((load_data [alice, bob, carol] [joint_paper])\<lparr>coauthor_matrix := Some M\<rparr>)"
    "weight ((load_data [alice, bob, carol] [joint_paper])\<lparr>coauthor_matrix := Some M\<rparr>)
            ''Alice'' ''Bob'' = Some 1"
    unfolding l by blast
  with a b n r show ?thesis by blast
qed

section \<open>Claims on the content profiles\<close>

text \<open>
  C3. The claim: a publication's keywords enter a researcher's profile text only if the
  researcher's whole name is one of its authors. The code tests whether the name occurs
  anywhere in the author cell: the publication of \<^verbatim>\<open>Ann Leeson\<close> alone gives its keyword
  to the profile text of \<^verbatim>\<open>Ann Lee\<close>, whose name is not among the authors that
  \<^verbatim>\<open>build_coauthor_matrix\<close> resolves for this publication.
\<close>

theorem substring_name_match:
  "text_data re_compile (load_data [ann_lee, ann_leeson] [leeson_paper])
     = Inr [''AI Genetics'', ''Ecology Genetics''] \<and>
   resolved_authors (researcher_ids (load_data [ann_lee, ann_leeson] [leeson_paper])) leeson_paper
     = [''Ann Leeson''] \<and>
   researcher_pubs re_compile [leeson_paper] ann_lee = Inr [leeson_paper]"
  by (simp add: text_data_def load_data_def combined_text_literal researcher_pubs_def
      str_contains_literal literal_names_example
      resolved_authors_def leeson_paper_def ann_lee_def ann_leeson_def
      strip_def is_space_def make_researcher_ids_def upt_rec)




section \<open>Claims on the recommendation\<close>

text \<open>
  C7. For every non-empty score vector (scores are exact reals here),
  \<^verbatim>\<open>(x - min) / (max - min + 1e-6)\<close> returns a vector of the same length whose entries all
  lie between 0 and 1, and when all scores are equal every entry is 0. Both vectors that
  \<^verbatim>\<open>recommend_collaborators\<close> normalises have one entry per researcher.
\<close>

theorem minmax_normalize_bounds:
  assumes "v \<noteq> []"
  shows "\<exists>w. minmax_normalize v = Inr w \<and> length w = length v \<and>
           (\<forall>y \<in> set w. 0 \<le> y \<and> y \<le> 1) \<and>
           ((\<forall>x \<in> set v. \<forall>x' \<in> set v. x = x') \<longrightarrow> (\<forall>y \<in> set w. y = 0))"
proof -
  let ?mn = "Min (set v)" and ?mx = "Max (set v)"
  let ?f = "\<lambda>x. (x - ?mn) / (?mx - ?mn + 1 / 1000000)"
  have w: "minmax_normalize v = Inr (map ?f v)"
    using assms by (simp add: minmax_normalize_def)
  have mn_in: "?mn \<in> set v" using assms by simp
  have bounds: "?mn \<le> x \<and> x \<le> ?mx" if "x \<in> set v" for x
    using that by simp
  have range: "0 \<le> ?f x \<and> ?f x \<le> 1" if x: "x \<in> set v" for x
  proof -
    from bounds [OF x] have n: "0 \<le> x - ?mn" and d: "x - ?mn \<le> ?mx - ?mn + 1 / 1000000"
      by simp_all
    from n d have pos: "0 < ?mx - ?mn + 1 / 1000000" using bounds [OF x] by linarith
    from n pos have "0 \<le> ?f x" by (rule divide_nonneg_pos)
    moreover from d pos have "?f x \<le> 1" by simp
    ultimately show ?thesis ..
  qed
  have zero: "?f x = 0" if eq: "\<forall>x \<in> set v. \<forall>x' \<in> set v. x = x'" and x: "x \<in> set v" for x
  proof -
    from eq x mn_in have "x = ?mn" by blast
    then show ?thesis by simp
  qed
  from w range zero show ?thesis by auto
qed

theorem minmax_normalize_bounds_witness:
  "[1, 1, 0] \<noteq> ([] :: real list) \<and>
   minmax_normalize [1, 1, 0] = Inr [1000000 / 1000001, 1000000 / 1000001, 0] \<and>
   (0::real) \<le> 1000000 / 1000001 \<and> (1000000 / 1000001 :: real) \<le> 1 \<and>
   [2, 2, 2] \<noteq> ([] :: real list) \<and>
   minmax_normalize [2, 2, 2] = Inr [0, 0, 0]"
proof -
  have a: "[1, 1, 0] \<noteq> ([] :: real list)" by simp
  have b: "[2, 2, 2] \<noteq> ([] :: real list)" by simp
  have c: "\<forall>x \<in> set [2, 2, 2 :: real]. \<forall>x' \<in> set [2, 2, 2]. x = x'" by simp
  from minmax_normalize_bounds [OF a] obtain w where
    w: "minmax_normalize [1, 1, 0] = Inr w" "\<forall>y \<in> set w. 0 \<le> y \<and> y \<le> 1" by blast
  from w(1) have w': "w = [1000000 / 1000001, 1000000 / 1000001, 0]"
    by (simp add: minmax_normalize_def)
  from w(2) have 1: "(0::real) \<le> 1000000 / 1000001 \<and> (1000000 / 1000001 :: real) \<le> 1"
    unfolding w' by simp
  from minmax_normalize_bounds [OF b] c obtain u where
    u: "minmax_normalize [2, 2, 2] = Inr u" "length u = length [2, 2, 2 :: real]"
       "\<forall>y \<in> set u. y = 0"
    by blast
  from u(2) obtain u1 u2 u3 where "u = [u1, u2, u3]"
    by (auto simp: length_Suc_conv numeral_3_eq_3)
  with u(3) have "u = [0, 0, 0]" by simp
  with u(1) have 2: "minmax_normalize [2, 2, 2] = Inr [0, 0, 0]" by simp
  from a b w(1) w' 1 2 show ?thesis by blast
qed

text \<open>
  C9. For every loaded model and every name that is not the name of a row of the
  researcher table, \<^verbatim>\<open>recommend_collaborators\<close> raises \<^verbatim>\<open>ValueError\<close>, whatever \<open>top_n\<close>
  is, and its message holds the name that was searched.
\<close>

theorem unknown_researcher_raises:
  assumes "loaded s" "nm \<notin> set (map name (researchers s))"
  shows "recommend_collaborators s nm top_n
           = Inl (ValueError (''Researcher '' @ nm @ '' not found in database''))"
proof -
  from assms have "researcher_ids s nm = None"
    using loaded_present [of s nm] by auto
  then show ?thesis by (simp add: recommend_collaborators_def)
qed

theorem unknown_researcher_raises_witness:
  "loaded example_model \<and> ''Dave'' \<notin> set (map name (researchers example_model)) \<and>
   recommend_collaborators example_model ''Dave'' 5
     = Inl (ValueError ''Researcher Dave not found in database'')"
proof -
  have a: "loaded example_model"
    using example_model_built by (simp add: built_def)
  have b: "''Dave'' \<notin> set (map name (researchers example_model))"
    by (simp add: example_model_researchers example_name)
  from unknown_researcher_raises [OF a b, of 5] a b show ?thesis by simp
qed

text \<open>
  C2. For every built model, every name of the researcher table and every \<open>top_n\<close>,
  \<^verbatim>\<open>recommend_collaborators\<close> returns the rows and scores of a list of indices that does
  not hold the index of the query researcher; when the names of the table are distinct,
  no returned row has the query name.
\<close>

theorem query_researcher_excluded:
  assumes "built s" "nm \<in> set (map name (researchers s))"
  shows "\<exists>ridx scores idxs.
           researcher_ids s nm = Some ridx \<and> combined_scores s ridx = Inr scores \<and>
           recommend_collaborators s nm top_n
             = Inr (map (\<lambda>i. (researchers s ! i, scores ! i)) idxs) \<and>
           ridx \<notin> set idxs \<and> (\<forall>i \<in> set idxs. i < length (researchers s)) \<and>
           (distinct (map name (researchers s)) \<longrightarrow>
              (\<forall>i \<in> set idxs. name (researchers s ! i) \<noteq> nm))"
proof -
  from assms have l: "loaded s" by (simp add: built_def)
  with assms(2) obtain ridx where ridx: "researcher_ids s nm = Some ridx"
    using loaded_present [of s nm] by auto
  from loaded_lookup [OF l ridx] have r: "ridx < length (researchers s)"
    "name (researchers s ! ridx) = nm" by simp_all
  from recommend_collaborators_built [OF assms(1) ridx, of top_n] obtain scores where
    scores: "combined_scores s ridx = Inr scores" "length scores = length (researchers s)"
      "recommend_collaborators s nm top_n =
         Inr (map (\<lambda>i. (researchers s ! i, scores ! i))
                (filter (\<lambda>i. i \<noteq> ridx) (top_indices scores top_n)))"
    by blast
  let ?idxs = "filter (\<lambda>i. i \<noteq> ridx) (top_indices scores top_n)"
  have a: "ridx \<notin> set ?idxs" by simp
  have b: "\<forall>i \<in> set ?idxs. i < length (researchers s)"
    using top_indices_set [of scores top_n] scores(2) by auto
  have c: "\<forall>i \<in> set ?idxs. name (researchers s ! i) \<noteq> nm"
    if d: "distinct (map name (researchers s))"
  proof
    fix i assume i: "i \<in> set ?idxs"
    with b have "i < length (researchers s)" "i \<noteq> ridx" by auto
    with d r(1) have "map name (researchers s) ! i \<noteq> map name (researchers s) ! ridx"
      by (simp add: nth_eq_iff_index_eq del: nth_map)
    with \<open>i < length (researchers s)\<close> r show "name (researchers s ! i) \<noteq> nm" by simp
  qed
  from ridx scores(1,3) a b c show ?thesis by blast
qed

theorem query_researcher_excluded_witness:
  "built example_model \<and> ''Alice'' \<in> set (map name (researchers example_model)) \<and>
   distinct (map name (researchers example_model)) \<and>
   recommend_collaborators example_model ''Alice'' 2 = Inr [(carol, 0)] \<and>
   name carol \<noteq> ''Alice''"
proof -
  have a: "''Alice'' \<in> set (map name (researchers example_model))"
    by (simp add: example_model_researchers example_name)
  have d: "distinct (map name (researchers example_model))"
    by (simp add: example_model_researchers example_name)
  from query_researcher_excluded [OF example_model_built a, of 2] d
  obtain scores idxs where
    r: "recommend_collaborators example_model ''Alice'' 2
          = Inr (map (\<lambda>i. (researchers example_model ! i, scores ! i)) idxs)"
    and n: "\<forall>i \<in> set idxs. name (researchers example_model ! i) \<noteq> ''Alice''"
    by blast
  from r have "map (\<lambda>i. (researchers example_model ! i, scores ! i)) idxs = [(carol, 0)]"
    by (simp add: recommend_example_2)
  then obtain i where "idxs = [i]" "researchers example_model ! i = carol"
    by (auto simp: map_eq_Cons_conv)
  with n have "name carol \<noteq> ''Alice''" by simp
  with example_model_built a d recommend_example_2 show ?thesis by blast
qed

text \<open>
  C10. For every built model, every name of the researcher table and every positive
  \<open>top_n\<close>, \<^verbatim>\<open>recommend_collaborators\<close> returns at most \<open>top_n\<close> entries: the window
  \<^verbatim>\<open>[-top_n-1:-1]\<close> holds \<open>min top_n (n - 1)\<close> indices of the \<open>n\<close> researchers, and one entry
  less is returned when the index of the query researcher is in the window. It can return
  fewer than \<open>top_n\<close> entries although more than \<open>top_n\<close> other researchers exist.
\<close>

theorem recommendation_count:
  "(built s \<and> nm \<in> set (map name (researchers s)) \<and> 0 < top_n \<longrightarrow>
      (\<exists>ridx scores recs.
         researcher_ids s nm = Some ridx \<and> combined_scores s ridx = Inr scores \<and>
         recommend_collaborators s nm top_n = Inr recs \<and>
         int (length recs) \<le> top_n \<and>
         length recs =
           (if ridx \<in> set (top_indices scores top_n)
            then min (nat top_n) (length (researchers s) - 1) - 1
            else min (nat top_n) (length (researchers s) - 1))))
   \<and> (\<exists>s' nm' top_n' recs.
         built s' \<and> nm' \<in> set (map name (researchers s')) \<and> 0 < top_n' \<and>
         top_n' < int (length (researchers s')) - 1 \<and>
         recommend_collaborators s' nm' top_n' = Inr recs \<and> int (length recs) < top_n')"
proof (intro conjI impI)
  assume h: "built s \<and> nm \<in> set (map name (researchers s)) \<and> 0 < top_n"
  then have l: "loaded s" by (simp add: built_def)
  with h obtain ridx where ridx: "researcher_ids s nm = Some ridx"
    using loaded_present [of s nm] by auto
  from h recommend_collaborators_built [OF _ ridx, of top_n] obtain scores where
    scores: "combined_scores s ridx = Inr scores" "length scores = length (researchers s)"
      "recommend_collaborators s nm top_n =
         Inr (map (\<lambda>i. (researchers s ! i, scores ! i))
                (filter (\<lambda>i. i \<noteq> ridx) (top_indices scores top_n)))"
    by blast
  let ?recs = "map (\<lambda>i. (researchers s ! i, scores ! i))
                (filter (\<lambda>i. i \<noteq> ridx) (top_indices scores top_n))"
  from h have len: "length (top_indices scores top_n) = min (nat top_n) (length (researchers s) - 1)"
    using top_indices_length [of top_n scores] scores(2) by simp
  have cnt: "length ?recs =
           (if ridx \<in> set (top_indices scores top_n)
            then min (nat top_n) (length (researchers s) - 1) - 1
            else min (nat top_n) (length (researchers s) - 1))"
    using filter_out_length [OF top_indices_distinct, of ridx scores top_n] len by simp
  then have "int (length ?recs) \<le> top_n" using h by (auto split: if_splits)
  with ridx scores(1,3) cnt
  show "\<exists>ridx scores recs.
         researcher_ids s nm = Some ridx \<and> combined_scores s ridx = Inr scores \<and>
         recommend_collaborators s nm top_n = Inr recs \<and>
         int (length recs) \<le> top_n \<and>
         length recs =
           (if ridx \<in> set (top_indices scores top_n)
            then min (nat top_n) (length (researchers s) - 1) - 1
            else min (nat top_n) (length (researchers s) - 1))"
    by blast
next
  have "built example_model \<and> ''Alice'' \<in> set (map name (researchers example_model)) \<and>
        (0::int) < 1 \<and> 1 < int (length (researchers example_model)) - 1 \<and>
        recommend_collaborators example_model ''Alice'' 1 = Inr [] \<and>
        int (length ([] :: (researcher \<times> real) list)) < 1"
    by (simp add: example_model_built recommend_example_1 example_model_researchers example_name)
  then show "\<exists>s' nm' top_n' recs.
         built s' \<and> nm' \<in> set (map name (researchers s')) \<and> 0 < top_n' \<and>
         top_n' < int (length (researchers s')) - 1 \<and>
         recommend_collaborators s' nm' top_n' = Inr recs \<and> int (length recs) < top_n'"
    by blast
qed

theorem recommendation_count_witness:
  "built example_model \<and> ''Alice'' \<in> set (map name (researchers example_model)) \<and> (0::int) < 1 \<and>
   (\<exists>recs. recommend_collaborators example_model ''Alice'' 1 = Inr recs \<and> int (length recs) \<le> 1)"
proof -
  have a: "''Alice'' \<in> set (map name (researchers example_model))"
    by (simp add: example_model_researchers example_name)
  from recommendation_count [of example_model "''Alice''" 1] example_model_built a
  have "\<exists>recs. recommend_collaborators example_model ''Alice'' 1 = Inr recs \<and> int (length recs) \<le> 1"
    by auto
  with example_model_built a show ?thesis by simp
qed

text \<open>
  C1. The claim: the \<open>top_n\<close> researchers other than the query researcher with the highest
  combined scores are returned. The code drops the last index of the ascending order,
  whoever it is, and then filters the query researcher out of the window. In the small
  data set the scores for the query Alice are 600000/1000001 for Alice, 1000000/1000001 for
  Bob and 0 for Carol: Bob, the best candidate, is the index that is dropped, and with
  \<open>top_n = 2\<close> only Carol is returned, where the specification's ranking is Bob, Carol.
\<close>

theorem best_candidate_dropped:
  "combined_scores example_model 0 = Inr [600000 / 1000001, 1000000 / 1000001, 0] \<and>
   recommend_collaborators example_model ''Alice'' 2 = Inr [(carol, 0)] \<and>
   spec_top_candidates [600000 / 1000001, 1000000 / 1000001, 0] 0 2 = [1, 2] \<and>
   researchers example_model ! 1 = bob"
  by (simp add: combined_scores_example recommend_example_2 spec_example example_model_researchers)

end
